theory Spec2Isabelle
  imports Complex_Main "HOL-Library.Monad_Syntax"
begin

section \<open>Values of the program\<close>

text \<open>
  The script works on the result of \<^verbatim>\<open>response.json()\<close>: a tree of JSON values.
  \<open>JUndefined\<close> is what reading a property that an object does not have yields.
  \<^item> \<open>JNum q\<close> is the finite number whose value is \<open>q\<close>. Every finite
    floating-point number is a rational, so every finite number of a response can be
    written; what the script does with a number (testing it against zero, truncating and
    clipping it to a time value, printing it) is stated on the value. Negative zero is
    \<open>JNum 0\<close>: the script does not tell the two zeros apart.
  \<^item> \<open>JInf positive\<close> is plus or minus infinity, which a JSON literal too large for
    a floating-point number parses to. JSON has no NaN.
  \<^item> \<open>JStr s\<close> holds the string as bytes (UTF-8). The script only tests strings for
    emptiness and for the ASCII characters comma, line feed and double quote, and copies
    everything else, which is the same on bytes and on UTF-16 code units.
  \<^item> \<open>JObj kvs\<close> lists the own properties of a plain object, each key once, in
    the order \<^verbatim>\<open>Object.keys\<close> enumerates them.
  \<^item> \<open>JFunction name\<close> is the built-in function of that name. It is not a JSON value:
    the script meets one only when it reads a property that a record inherits from
    \<^verbatim>\<open>Object.prototype\<close>, and then turns it into a string. No response holds one.
\<close>

datatype jsval =
    JUndefined
  | JNull
  | JBool bool
  | JNum rat
  | JInf bool
  | JStr string
  | JArr "jsval list"
  | JObj "(string \<times> jsval) list"
  | JFunction string

text \<open>
  What running a piece of the script yields: a value, or a thrown \<open>TypeError\<close> or
  \<open>RangeError\<close>. \<open>Unmodelled\<close> is not an outcome of the script: it marks the inputs on
  which what the script does is fixed by the JavaScript engine or by parts of the
  language this theory does not describe (see each use), so that no theorem below
  says anything about them.
\<close>

datatype error = TypeError | RangeError | Unmodelled

type_synonym 'a result = "error + 'a"

fun mapResult :: "('a \<Rightarrow> 'b result) \<Rightarrow> 'a list \<Rightarrow> 'b list result" where
  "mapResult f [] = Inr []"
| "mapResult f (x # xs) =
     (case f x of
        Inl e \<Rightarrow> Inl e
      | Inr y \<Rightarrow> (case mapResult f xs of Inl e \<Rightarrow> Inl e | Inr ys \<Rightarrow> Inr (y # ys)))"

text \<open>\<^verbatim>\<open>!v\<close> is \<open>\<not> truthy v\<close>.\<close>

fun truthy :: "jsval \<Rightarrow> bool" where
  "truthy JUndefined = False"
| "truthy JNull = False"
| "truthy (JBool b) = b"
| "truthy (JNum q) = (q \<noteq> 0)"
| "truthy (JInf positive) = True"
| "truthy (JStr s) = (s \<noteq> [])"
| "truthy (JArr xs) = True"
| "truthy (JObj kvs) = True"
| "truthy (JFunction name) = True"

fun isArray :: "jsval \<Rightarrow> bool" where
  "isArray (JArr xs) = True"
| "isArray v = False"

fun elems :: "jsval \<Rightarrow> jsval list" where
  "elems (JArr xs) = xs"
| "elems v = []"

definition getOwn :: "(string \<times> jsval) list \<Rightarrow> string \<Rightarrow> jsval" where
  "getOwn kvs k = (case map_of kvs k of None \<Rightarrow> JUndefined | Some v \<Rightarrow> v)"

text \<open>
  \<^verbatim>\<open>v.symbol\<close>, \<^verbatim>\<open>v.history\<close>, \<^verbatim>\<open>v.t\<close>, \<^verbatim>\<open>v.error\<close> on a value that is neither null nor
  undefined. None of these names is a property of a built-in prototype, an array index
  or \<^verbatim>\<open>length\<close>, so the read finds an own property of a plain object and is undefined
  on every other value.
\<close>

fun getField :: "jsval \<Rightarrow> string \<Rightarrow> jsval" where
  "getField (JObj kvs) k = getOwn kvs k"
| "getField v k = JUndefined"

text \<open>
  \<^verbatim>\<open>obj.k = v\<close> on a plain object: an existing property keeps its place, a new one
  (\<^verbatim>\<open>symbol\<close> and \<^verbatim>\<open>timestamp_iso\<close> are not array indices) goes last.
\<close>

fun setOwn :: "(string \<times> jsval) list \<Rightarrow> string \<Rightarrow> jsval \<Rightarrow> (string \<times> jsval) list" where
  "setOwn [] k v = [(k, v)]"
| "setOwn ((k', v') # kvs) k v =
     (if k' = k then (k, v) # kvs else (k', v') # setOwn kvs k v)"

section \<open>Numbers and digits\<close>

definition digitChar :: "nat \<Rightarrow> char" where
  "digitChar d = ''0123456789'' ! (d mod 10)"

text \<open>The decimal digits of a natural number, without leading zeros.\<close>

fun showNat :: "nat \<Rightarrow> string" where
  "showNat n = (if n < 10 then [digitChar n] else showNat (n div 10) @ [digitChar n])"

declare showNat.simps [simp del]

definition showInt :: "int \<Rightarrow> string" where
  "showInt i = (if i < 0 then CHR ''-'' # showNat (nat (- i)) else showNat (nat i))"

text \<open>
  The last \<open>w\<close> decimal digits of \<open>n\<close>: for \<open>n < 10 ^ w\<close> this is \<open>n\<close> written in \<open>w\<close>
  digits with leading zeros, as the date formats below need.
\<close>

fun fixedDigits :: "nat \<Rightarrow> nat \<Rightarrow> string" where
  "fixedDigits 0 n = []"
| "fixedDigits (Suc w) n = fixedDigits w (n div 10) @ [digitChar n]"

section \<open>Dates (ECMA-262, Date objects)\<close>

text \<open>
  Time values are integers: milliseconds since 1970-01-01T00:00:00Z. \<open>None\<close> stands
  for the time value NaN (an invalid date).
\<close>

definition msPerDay :: int where "msPerDay = 86400000"
definition msPerHour :: int where "msPerHour = 3600000"
definition msPerMinute :: int where "msPerMinute = 60000"
definition msPerSecond :: int where "msPerSecond = 1000"

definition Day :: "int \<Rightarrow> int" where
  "Day t = t div msPerDay"

definition TimeWithinDay :: "int \<Rightarrow> int" where
  "TimeWithinDay t = t mod msPerDay"

definition DaysInYear :: "int \<Rightarrow> int" where
  "DaysInYear y =
     (if y mod 4 \<noteq> 0 then 365
      else if y mod 100 \<noteq> 0 then 366
      else if y mod 400 \<noteq> 0 then 365
      else 366)"

definition DayFromYear :: "int \<Rightarrow> int" where
  "DayFromYear y =
     365 * (y - 1970) + (y - 1969) div 4 - (y - 1901) div 100 + (y - 1601) div 400"

definition TimeFromYear :: "int \<Rightarrow> int" where
  "TimeFromYear y = msPerDay * DayFromYear y"

text \<open>
  ECMA-262 defines \<open>YearFromTime t\<close> as the largest \<open>y\<close> with \<open>TimeFromYear y \<le> t\<close>.
  \<open>yearSearch\<close> finds it from a first guess by stepping one year at a time.
\<close>

function yearSearch :: "int \<Rightarrow> int \<Rightarrow> int" where
  "yearSearch y d =
     (if d < DayFromYear y then yearSearch (y - 1) d
      else if DayFromYear (y + 1) \<le> d then yearSearch (y + 1) d
      else y)"
  by pat_completeness auto

lemma div_succ:
  fixes x k :: int
  assumes "0 < k"
  shows "(x + 1) div k = x div k + (if (x + 1) mod k = 0 then 1 else 0)"
proof -
  let ?q = "x div k" and ?r = "x mod k"
  have r: "0 \<le> ?r" "?r < k" using assms by simp_all
  have x: "x + 1 = k * ?q + (?r + 1)" by simp
  show ?thesis
  proof (cases "?r + 1 = k")
    case True
    then have "x + 1 = k * (?q + 1)" using x by (simp add: algebra_simps)
    then show ?thesis using assms by simp
  next
    case False
    then have lt: "?r + 1 < k" using r by simp
    have "(x + 1) div k = ?q"
      using x lt r by (intro int_div_pos_eq [where r = "?r + 1"]) auto
    moreover have "(x + 1) mod k = ?r + 1"
      using x lt r by (intro int_mod_pos_eq [where q = ?q]) auto
    ultimately show ?thesis using r by simp
  qed
qed

lemma leap_steps:
  fixes y :: int
  shows "(y + 1 - 1969) div 4 = (y - 1969) div 4 + (if y mod 4 = 0 then 1 else 0)"
    and "(y + 1 - 1901) div 100 = (y - 1901) div 100 + (if y mod 100 = 0 then 1 else 0)"
    and "(y + 1 - 1601) div 400 = (y - 1601) div 400 + (if y mod 400 = 0 then 1 else 0)"
proof -
  have m4: "(y - 1968) mod 4 = y mod 4"
    using mod_diff_right_eq [of y 1968 4] by simp
  have m100: "(y - 1900) mod 100 = y mod 100"
    using mod_diff_right_eq [of y 1900 100] by simp
  have m400: "(y - 1600) mod 400 = y mod 400"
    using mod_diff_right_eq [of y 1600 400] by simp
  show "(y + 1 - 1969) div 4 = (y - 1969) div 4 + (if y mod 4 = 0 then 1 else 0)"
    using div_succ [of 4 "y - 1969"] m4 by simp
  show "(y + 1 - 1901) div 100 = (y - 1901) div 100 + (if y mod 100 = 0 then 1 else 0)"
    using div_succ [of 100 "y - 1901"] m100 by simp
  show "(y + 1 - 1601) div 400 = (y - 1601) div 400 + (if y mod 400 = 0 then 1 else 0)"
    using div_succ [of 400 "y - 1601"] m400 by simp
qed

lemma mod_chain:
  fixes y :: int
  shows "y mod 100 = 0 \<Longrightarrow> y mod 4 = 0" and "y mod 400 = 0 \<Longrightarrow> y mod 100 = 0"
proof -
  assume "y mod 100 = 0"
  then have "100 dvd y" by (simp add: dvd_eq_mod_eq_0)
  moreover have "(4::int) dvd 100" by simp
  ultimately have "4 dvd y" by (rule dvd_trans [rotated])
  then show "y mod 4 = 0" by simp
next
  assume "y mod 400 = 0"
  then have "400 dvd y" by (simp add: dvd_eq_mod_eq_0)
  moreover have "(100::int) dvd 400" by simp
  ultimately have "100 dvd y" by (rule dvd_trans [rotated])
  then show "y mod 100 = 0" by simp
qed

lemma DayFromYear_Suc: "DayFromYear (y + 1) = DayFromYear y + DaysInYear y"
proof -
  have lin: "\<And>a b c i j k :: int.
      365 * (y + 1 - 1970) + (a + i) - (b + j) + (c + k)
      = 365 * (y - 1970) + a - b + c + 365 + i - j + k"
    by (simp add: algebra_simps)
  have "DayFromYear (y + 1) =
      365 * (y + 1 - 1970) + (y + 1 - 1969) div 4 - (y + 1 - 1901) div 100
      + (y + 1 - 1601) div 400"
    by (simp only: DayFromYear_def)
  also have "\<dots> = DayFromYear y + 365 + (if y mod 4 = 0 then 1 else 0)
      - (if y mod 100 = 0 then 1 else 0) + (if y mod 400 = 0 then 1 else 0)"
    by (simp only: leap_steps DayFromYear_def) (rule lin)
  also have "\<dots> = DayFromYear y + DaysInYear y"
    using mod_chain [of y] by (simp add: DaysInYear_def)
  finally show ?thesis .
qed

lemma DayFromYear_pred: "DayFromYear (y - 1) = DayFromYear y - DaysInYear (y - 1)"
  using DayFromYear_Suc [of "y - 1"] by simp

lemma DaysInYear_cases: "DaysInYear y = 365 \<or> DaysInYear y = 366"
  by (simp add: DaysInYear_def)

termination yearSearch
proof (relation "measure (\<lambda>(y, d). nat \<bar>4 * (d - DayFromYear y) - 729\<bar>)")
  show "wf (measure (\<lambda>(y, d). nat \<bar>4 * (d - DayFromYear y) - 729\<bar>))" by simp
next
  fix y d :: int
  assume "d < DayFromYear y"
  then show "((y - 1, d), (y, d))
      \<in> measure (\<lambda>(y, d). nat \<bar>4 * (d - DayFromYear y) - 729\<bar>)"
    using DaysInYear_cases [of "y - 1"] by (auto simp add: DayFromYear_pred)
next
  fix y d :: int
  assume "\<not> d < DayFromYear y" "DayFromYear (y + 1) \<le> d"
  then show "((y + 1, d), (y, d))
      \<in> measure (\<lambda>(y, d). nat \<bar>4 * (d - DayFromYear y) - 729\<bar>)"
    using DaysInYear_cases [of y] by (auto simp add: DayFromYear_Suc)
qed

declare yearSearch.simps [simp del]

text \<open>146097 is the number of days in 400 years, so the guess is at most a year off.\<close>

definition YearFromTime :: "int \<Rightarrow> int" where
  "YearFromTime t = yearSearch (1970 + (400 * Day t) div 146097) (Day t)"

definition InLeapYear :: "int \<Rightarrow> int" where
  "InLeapYear t = (if DaysInYear (YearFromTime t) = 366 then 1 else 0)"

definition DayWithinYear :: "int \<Rightarrow> int" where
  "DayWithinYear t = Day t - DayFromYear (YearFromTime t)"

text \<open>
  \<open>monthStart leap m\<close> is the number of the first day of month \<open>m\<close> (0 = January)
  within a year, \<open>leap\<close> being 1 in a leap year; month 12 stands for the next January.
\<close>

definition monthStart :: "int \<Rightarrow> int \<Rightarrow> int" where
  "monthStart leap m =
     (if m \<le> 0 then 0 else if m = 1 then 31 else if m = 2 then 59 + leap
      else if m = 3 then 90 + leap else if m = 4 then 120 + leap
      else if m = 5 then 151 + leap else if m = 6 then 181 + leap
      else if m = 7 then 212 + leap else if m = 8 then 243 + leap
      else if m = 9 then 273 + leap else if m = 10 then 304 + leap
      else if m = 11 then 334 + leap else 365 + leap)"

text \<open>The table of \<open>MonthFromTime\<close>: the month of day \<open>d\<close> of a year.\<close>

definition monthOfDay :: "int \<Rightarrow> int \<Rightarrow> int" where
  "monthOfDay leap d =
     (if d < 31 then 0 else if d < 59 + leap then 1 else if d < 90 + leap then 2
      else if d < 120 + leap then 3 else if d < 151 + leap then 4
      else if d < 181 + leap then 5 else if d < 212 + leap then 6
      else if d < 243 + leap then 7 else if d < 273 + leap then 8
      else if d < 304 + leap then 9 else if d < 334 + leap then 10
      else 11)"

definition MonthFromTime :: "int \<Rightarrow> int" where
  "MonthFromTime t = monthOfDay (InLeapYear t) (DayWithinYear t)"

definition DateFromTime :: "int \<Rightarrow> int" where
  "DateFromTime t = DayWithinYear t - monthStart (InLeapYear t) (MonthFromTime t) + 1"

definition HourFromTime :: "int \<Rightarrow> int" where
  "HourFromTime t = (t div msPerHour) mod 24"

definition MinFromTime :: "int \<Rightarrow> int" where
  "MinFromTime t = (t div msPerMinute) mod 60"

definition SecFromTime :: "int \<Rightarrow> int" where
  "SecFromTime t = (t div msPerSecond) mod 60"

definition msFromTime :: "int \<Rightarrow> int" where
  "msFromTime t = t mod msPerSecond"

text \<open>
  \<open>MakeDay\<close> with a month in \<open>0..11\<close> and \<open>MakeDate\<close> with the time within the day
  computed by \<open>MakeTime\<close>.
\<close>

definition MakeDay :: "int \<Rightarrow> int \<Rightarrow> int \<Rightarrow> int" where
  "MakeDay year month date =
     DayFromYear year + monthStart (if DaysInYear year = 366 then 1 else 0) month + date - 1"

definition MakeTime :: "int \<Rightarrow> int \<Rightarrow> int \<Rightarrow> int \<Rightarrow> int" where
  "MakeTime hour mn sec ms = hour * msPerHour + mn * msPerMinute + sec * msPerSecond + ms"

definition MakeDate :: "int \<Rightarrow> int \<Rightarrow> int" where
  "MakeDate day time = day * msPerDay + time"

text \<open>
  \<open>TimeClip\<close> on a finite number: outside the range of time values the result is NaN,
  inside it the number loses its fractional part (\<open>ToIntegerOrInfinity\<close> truncates
  toward zero).
\<close>

definition ToIntegerOrInfinity :: "rat \<Rightarrow> int" where
  "ToIntegerOrInfinity q = (if q < 0 then \<lceil>q\<rceil> else \<lfloor>q\<rfloor>)"

definition TimeClip :: "rat \<Rightarrow> int option" where
  "TimeClip t = (if \<bar>t\<bar> > 8640000000000000 then None else Some (ToIntegerOrInfinity t))"

text \<open>
  \<^verbatim>\<open>Date.prototype.toISOString\<close>: \<^verbatim>\<open>YYYY-MM-DDTHH:mm:ss.sssZ\<close> in UTC, the year written
  with a sign and six digits when it is outside 0..9999; a \<open>RangeError\<close> on an invalid
  date.
\<close>

definition isoYear :: "int \<Rightarrow> string" where
  "isoYear y =
     (if 0 \<le> y \<and> y \<le> 9999 then fixedDigits 4 (nat y)
      else (if y < 0 then CHR ''-'' else CHR ''+'') # fixedDigits 6 (nat \<bar>y\<bar>))"

definition isoString :: "int \<Rightarrow> string" where
  "isoString t =
     isoYear (YearFromTime t) @ ''-'' @ fixedDigits 2 (nat (MonthFromTime t + 1))
     @ ''-'' @ fixedDigits 2 (nat (DateFromTime t))
     @ ''T'' @ fixedDigits 2 (nat (HourFromTime t))
     @ '':'' @ fixedDigits 2 (nat (MinFromTime t))
     @ '':'' @ fixedDigits 2 (nat (SecFromTime t))
     @ ''.'' @ fixedDigits 3 (nat (msFromTime t)) @ ''Z''"

definition toISOString :: "int option \<Rightarrow> string result" where
  "toISOString tv = (case tv of None \<Rightarrow> Inl RangeError | Some t \<Rightarrow> Inr (isoString t))"

text \<open>
  \<^verbatim>\<open>new Date(v)\<close> for a value \<open>v\<close>: a number is clipped to the range of valid time
  values (an infinite one to NaN), a boolean, null or undefined is first converted to a
  number. A string is handed to \<^verbatim>\<open>Date.parse\<close>, an array, object or function is
  converted to a string first; what \<^verbatim>\<open>Date.parse\<close> makes of an arbitrary string is
  left to the engine, so these are \<open>Unmodelled\<close>.
\<close>

fun newDate :: "jsval \<Rightarrow> int option result" where
  "newDate (JNum q) = Inr (TimeClip q)"
| "newDate (JInf positive) = Inr None"
| "newDate (JBool b) = Inr (TimeClip (if b then 1 else 0))"
| "newDate JNull = Inr (TimeClip 0)"
| "newDate JUndefined = Inr None"
| "newDate (JStr s) = Inl Unmodelled"
| "newDate (JArr xs) = Inl Unmodelled"
| "newDate (JObj kvs) = Inl Unmodelled"
| "newDate (JFunction name) = Inl Unmodelled"

text \<open>
  \<^verbatim>\<open>Date.parse\<close> on the date-time forms of the ECMA-262 string format that the script
  produces or builds: \<^verbatim>\<open>YYYY-MM-DDTHH:mm:ss\<close>, optionally followed by \<^verbatim>\<open>.sss\<close> and by
  \<^verbatim>\<open>Z\<close>, the year also as a sign and six digits. The result is the time value the
  fields denote and whether the string ends in \<^verbatim>\<open>Z\<close> (UTC) or is in local time.
  \<open>None\<close>: the string is not of this form or a field is out of range.
\<close>

definition digitVal :: "char \<Rightarrow> nat option" where
  "digitVal c =
     map_of [(CHR ''0'', 0), (CHR ''1'', 1), (CHR ''2'', 2), (CHR ''3'', 3), (CHR ''4'', 4),
             (CHR ''5'', 5), (CHR ''6'', 6), (CHR ''7'', 7), (CHR ''8'', 8), (CHR ''9'', 9)] c"

fun readAcc :: "nat \<Rightarrow> nat \<Rightarrow> string \<Rightarrow> (nat \<times> string) option" where
  "readAcc 0 acc s = Some (acc, s)"
| "readAcc (Suc w) acc [] = None"
| "readAcc (Suc w) acc (c # cs) =
     (case digitVal c of None \<Rightarrow> None | Some d \<Rightarrow> readAcc w (10 * acc + d) cs)"

definition readNum :: "nat \<Rightarrow> string \<Rightarrow> (int \<times> string) option" where
  "readNum w s = map_option (\<lambda>(n, r). (int n, r)) (readAcc w 0 s)"

definition expect :: "char \<Rightarrow> string \<Rightarrow> string option" where
  "expect c s = (case s of [] \<Rightarrow> None | x # r \<Rightarrow> if x = c then Some r else None)"

definition readYear :: "string \<Rightarrow> (int \<times> string) option" where
  "readYear s =
     (case s of
        [] \<Rightarrow> None
      | c # r \<Rightarrow>
          if c = CHR ''+'' then readNum 6 r
          else if c = CHR ''-'' then
            (case readNum 6 r of
               None \<Rightarrow> None
             | Some (y, r') \<Rightarrow> if y = 0 then None else Some (- y, r'))
          else readNum 4 s)"

definition readFraction :: "string \<Rightarrow> (int \<times> string) option" where
  "readFraction s =
     (case s of [] \<Rightarrow> Some (0, s) | c # r \<Rightarrow> if c = CHR ''.'' then readNum 3 r else Some (0, s))"

definition readZone :: "string \<Rightarrow> bool option" where
  "readZone s = (if s = [] then Some False else if s = ''Z'' then Some True else None)"

definition DaysInMonth :: "int \<Rightarrow> int \<Rightarrow> int" where
  "DaysInMonth year month =
     (let leap = (if DaysInYear year = 366 then 1 else 0) in
      monthStart leap month - monthStart leap (month - 1))"

definition validFields :: "int \<Rightarrow> int \<Rightarrow> int \<Rightarrow> int \<Rightarrow> int \<Rightarrow> int \<Rightarrow> int \<Rightarrow> bool" where
  "validFields year month date hour mn sec ms =
     (1 \<le> month \<and> month \<le> 12 \<and> 1 \<le> date \<and> date \<le> DaysInMonth year month
      \<and> (hour \<le> 23 \<or> (hour = 24 \<and> mn = 0 \<and> sec = 0 \<and> ms = 0))
      \<and> mn \<le> 59 \<and> sec \<le> 59)"

definition parseDateTime :: "string \<Rightarrow> (int \<times> bool) option" where
  "parseDateTime s =
     do {
       (year, r) \<leftarrow> readYear s;
       r \<leftarrow> expect CHR ''-'' r;
       (month, r) \<leftarrow> readNum 2 r;
       r \<leftarrow> expect CHR ''-'' r;
       (date, r) \<leftarrow> readNum 2 r;
       r \<leftarrow> expect CHR ''T'' r;
       (hour, r) \<leftarrow> readNum 2 r;
       r \<leftarrow> expect CHR '':'' r;
       (mn, r) \<leftarrow> readNum 2 r;
       r \<leftarrow> expect CHR '':'' r;
       (sec, r) \<leftarrow> readNum 2 r;
       (ms, r) \<leftarrow> readFraction r;
       utc \<leftarrow> readZone r;
       if validFields year month date hour mn sec ms
       then Some (MakeDate (MakeDay year (month - 1) date) (MakeTime hour mn sec ms), utc)
       else None
     }"

text \<open>
  \<^verbatim>\<open>new Date(s)\<close> for a string: a string without \<^verbatim>\<open>Z\<close> is local time, converted to
  UTC with the offset \<open>tza\<close> of the local time zone at that local time, which the
  environment supplies. On a string that is not of the format the engine may fall back
  to rules of its own: \<open>Unmodelled\<close>.
\<close>

definition newDateFromString :: "(int \<Rightarrow> int) \<Rightarrow> string \<Rightarrow> int option result" where
  "newDateFromString tza s =
     (case parseDateTime s of
        None \<Rightarrow> Inl Unmodelled
      | Some (t, utc) \<Rightarrow> Inr (TimeClip (of_int (if utc then t else t - tza t))))"

section \<open>parseLiquidationData\<close>

text \<open>
  The body of the inner \<^verbatim>\<open>forEach\<close> on one history item, returning the item as it
  is pushed.
  \<^item> On null (or undefined) the assignment \<^verbatim>\<open>entry.symbol = symbol\<close> throws a TypeError.
  \<^item> On a plain object both properties are written in place.
  \<^item> On a boolean, number or string the script (which is not in strict mode) ignores
    the assignment, \<^verbatim>\<open>entry.t\<close> is undefined and the item is pushed as it is.
  \<^item> An array (or a function) would receive \<^verbatim>\<open>symbol\<close> as a named property, which
    \<open>jsval\<close> does not represent.
\<close>

fun stampEntry :: "jsval \<Rightarrow> jsval \<Rightarrow> jsval result" where
  "stampEntry symbol JUndefined = Inl TypeError"
| "stampEntry symbol JNull = Inl TypeError"
| "stampEntry symbol (JObj kvs) =
     (let entry = setOwn kvs ''symbol'' symbol in
      if truthy (getOwn entry ''t'') then
        (case newDate (getOwn entry ''t'') of
           Inl e \<Rightarrow> Inl e
         | Inr tv \<Rightarrow>
             (case toISOString tv of
                Inl e \<Rightarrow> Inl e
              | Inr isoStr \<Rightarrow> Inr (JObj (setOwn entry ''timestamp_iso'' (JStr isoStr)))))
      else Inr (JObj entry))"
| "stampEntry symbol (JArr xs) = Inl Unmodelled"
| "stampEntry symbol (JFunction name) = Inl Unmodelled"
| "stampEntry symbol entry = Inr entry"

text \<open>
  The two \<^verbatim>\<open>forEach\<close> loops, threading \<^verbatim>\<open>allData\<close>; an exception leaves both loops.
\<close>

fun stampAll :: "jsval \<Rightarrow> jsval list \<Rightarrow> jsval list \<Rightarrow> jsval list result" where
  "stampAll symbol [] allData = Inr allData"
| "stampAll symbol (entry # rest) allData =
     (case stampEntry symbol entry of
        Inl e \<Rightarrow> Inl e
      | Inr entry' \<Rightarrow> stampAll symbol rest (allData @ [entry']))"

fun flattenAll :: "jsval list \<Rightarrow> jsval list \<Rightarrow> jsval list result" where
  "flattenAll [] allData = Inr allData"
| "flattenAll (symbolData # rest) allData =
     (if \<not> truthy symbolData \<or> \<not> truthy (getField symbolData ''symbol'')
         \<or> \<not> isArray (getField symbolData ''history'')
      then flattenAll rest allData
      else
        (case stampAll (getField symbolData ''symbol'')
                (elems (getField symbolData ''history'')) allData of
           Inl e \<Rightarrow> Inl e
         | Inr allData' \<Rightarrow> flattenAll rest allData'))"

definition parseLiquidationData :: "jsval \<Rightarrow> jsval list result" where
  "parseLiquidationData data =
     (if \<not> truthy data \<or> \<not> isArray data then Inr []
      else flattenAll (elems data) [])"

section \<open>convertToCSV\<close>

abbreviation DQ :: char where "DQ \<equiv> CHR 0x22"
abbreviation NL :: char where "NL \<equiv> CHR 0x0A"

text \<open>\<^verbatim>\<open>Array.prototype.join\<close> on an array of strings.\<close>

fun joinWith :: "string \<Rightarrow> string list \<Rightarrow> string" where
  "joinWith sep [] = []"
| "joinWith sep [x] = x"
| "joinWith sep (x # y # ys) = x @ sep @ joinWith sep (y # ys)"

text \<open>
  \<^verbatim>\<open>String(v)\<close>.
  \<^item> A whole number below \<open>2 ^ 53\<close> in magnitude prints its decimal digits. Every
    other finite number prints the shortest digits that read back as the same
    floating-point number; which numbers are floating-point numbers is not described
    here, so these are \<open>Unmodelled\<close>.
  \<^item> An array prints its elements joined by commas, null and undefined as nothing.
  \<^item> A built-in function prints as \<^verbatim>\<open>function name() { [native code] }\<close>. The
    standard fixes this form up to white space; the text here is the one V8 and
    JavaScriptCore produce.
  \<^item> A plain object prints as \<^verbatim>\<open>[object Object]\<close> through the inherited
    \<^verbatim>\<open>toString\<close>. An own property \<^verbatim>\<open>toString\<close> read from JSON is not callable and
    hides the inherited method; the inherited \<^verbatim>\<open>valueOf\<close> returns the object itself,
    so the conversion throws a TypeError.
\<close>

definition wholeNumber :: "rat \<Rightarrow> bool" where
  "wholeNumber q = (of_int \<lfloor>q\<rfloor> = q \<and> \<bar>q\<bar> < 9007199254740992)"

definition nativeFunctionText :: "string \<Rightarrow> string" where
  "nativeFunctionText name = ''function '' @ name @ ''() { [native code] }''"

fun toStringJS :: "jsval \<Rightarrow> string result"
  and joinElements :: "jsval list \<Rightarrow> string result" where
  "toStringJS JUndefined = Inr ''undefined''"
| "toStringJS JNull = Inr ''null''"
| "toStringJS (JBool b) = Inr (if b then ''true'' else ''false'')"
| "toStringJS (JNum q) = (if wholeNumber q then Inr (showInt \<lfloor>q\<rfloor>) else Inl Unmodelled)"
| "toStringJS (JInf positive) = Inr (if positive then ''Infinity'' else ''-Infinity'')"
| "toStringJS (JStr s) = Inr s"
| "toStringJS (JArr xs) = joinElements xs"
| "toStringJS (JObj kvs) =
     (if ''toString'' \<in> set (map fst kvs) then Inl TypeError else Inr ''[object Object]'')"
| "toStringJS (JFunction name) = Inr (nativeFunctionText name)"
| "joinElements [] = Inr []"
| "joinElements (x # xs) =
     (case (if x = JNull \<or> x = JUndefined then Inr [] else toStringJS x) of
        Inl e \<Rightarrow> Inl e
      | Inr s \<Rightarrow>
          (if xs = [] then Inr s
           else (case joinElements xs of Inl e \<Rightarrow> Inl e | Inr r \<Rightarrow> Inr (s @ '','' @ r))))"

text \<open>
  \<^verbatim>\<open>Object.keys(v)\<close> and \<^verbatim>\<open>v[k]\<close> for the records of the table. Both throw a TypeError
  on null and undefined. On a plain object a property that is not its own is looked up
  in \<^verbatim>\<open>Object.prototype\<close>: \<^verbatim>\<open>constructor\<close> is the function \<^verbatim>\<open>Object\<close>, \<^verbatim>\<open>__proto__\<close>
  is the prototype itself (an object without enumerable properties), the other names
  below are methods called by their own name, and every other name is undefined.
  Records that are not plain objects are \<open>Unmodelled\<close>.
\<close>

definition objectPrototypeNames :: "string list" where
  "objectPrototypeNames =
     [''constructor'', ''hasOwnProperty'', ''isPrototypeOf'', ''propertyIsEnumerable'',
      ''toLocaleString'', ''toString'', ''valueOf'', ''__proto__'',
      ''__defineGetter__'', ''__defineSetter__'', ''__lookupGetter__'', ''__lookupSetter__'']"

definition inherited :: "string \<Rightarrow> jsval" where
  "inherited k =
     (if k = ''constructor'' then JFunction ''Object''
      else if k = ''__proto__'' then JObj []
      else if k \<in> set objectPrototypeNames then JFunction k
      else JUndefined)"

fun ownKeys :: "jsval \<Rightarrow> string list result" where
  "ownKeys JUndefined = Inl TypeError"
| "ownKeys JNull = Inl TypeError"
| "ownKeys (JObj kvs) = Inr (map fst kvs)"
| "ownKeys v = Inl Unmodelled"

fun readProp :: "jsval \<Rightarrow> string \<Rightarrow> jsval result" where
  "readProp JUndefined k = Inl TypeError"
| "readProp JNull k = Inl TypeError"
| "readProp (JObj kvs) k =
     (case map_of kvs k of
        Some v \<Rightarrow> Inr v
      | None \<Rightarrow> Inr (inherited k))"
| "readProp v k = Inl Unmodelled"

text \<open>\<^verbatim>\<open>s.replace(/"/g, '""')\<close>\<close>

definition doubleQuotes :: "string \<Rightarrow> string" where
  "doubleQuotes s = concat (map (\<lambda>c. if c = DQ then [DQ, DQ] else [c]) s)"

text \<open>The callback of the inner \<^verbatim>\<open>map\<close>: one cell of the row \<open>row\<close> under \<open>header\<close>.\<close>

definition csvCell :: "jsval \<Rightarrow> string \<Rightarrow> string result" where
  "csvCell row header =
     (case readProp row header of
        Inl e \<Rightarrow> Inl e
      | Inr v \<Rightarrow>
          (let cell = (if v = JNull \<or> v = JUndefined then JStr [] else v) in
           case toStringJS cell of
             Inl e \<Rightarrow> Inl e
           | Inr cellString \<Rightarrow>
               Inr (if CHR '','' \<in> set cellString \<or> NL \<in> set cellString \<or> DQ \<in> set cellString
                    then [DQ] @ doubleQuotes cellString @ [DQ]
                    else cellString)))"

definition csvRow :: "string list \<Rightarrow> jsval \<Rightarrow> string result" where
  "csvRow orderedHeaders row =
     (case mapResult (csvCell row) orderedHeaders of
        Inl e \<Rightarrow> Inl e
      | Inr cells \<Rightarrow> Inr (joinWith '','' cells))"

definition orderHeaders :: "string list \<Rightarrow> string list" where
  "orderHeaders headers =
     ''symbol'' # ''timestamp_iso''
       # filter (\<lambda>h. h \<noteq> ''symbol'' \<and> h \<noteq> ''timestamp_iso'') headers"

text \<open>
  \<^verbatim>\<open>convertToCSV(dataArray)\<close>. A value that is truthy and not an array passes the
  first test unless it is an object with \<^verbatim>\<open>length\<close> 0, and then fails with a TypeError,
  at \<^verbatim>\<open>Object.keys\<close> or at the call of \<^verbatim>\<open>dataArray.map\<close>, which is not a function.
  The \<^verbatim>\<open>length\<close> of a built-in function is its number of parameters, which
  \<open>jsval\<close> does not represent.
\<close>

fun convertToCSV :: "jsval \<Rightarrow> string result" where
  "convertToCSV (JArr []) = Inr []"
| "convertToCSV (JArr (first # rest)) =
     (case ownKeys first of
        Inl e \<Rightarrow> Inl e
      | Inr headers \<Rightarrow>
          (let orderedHeaders = orderHeaders headers;
               headerString = joinWith '','' orderedHeaders in
           case mapResult (csvRow orderedHeaders) (first # rest) of
             Inl e \<Rightarrow> Inl e
           | Inr rows \<Rightarrow> Inr (joinWith [NL] (headerString # rows))))"
| "convertToCSV (JObj kvs) =
     (if getOwn kvs ''length'' = JNum 0 then Inr [] else Inl TypeError)"
| "convertToCSV (JFunction name) = Inl Unmodelled"
| "convertToCSV v = (if \<not> truthy v then Inr [] else Inl TypeError)"

section \<open>fetchAndDownload\<close>

text \<open>
  The form fields as the function reads them (\<open>apiKey\<close> and \<open>symbols\<close> after
  \<^verbatim>\<open>trim\<close>), and what the environment answers: the offset of the local time zone, the
  outcome of \<^verbatim>\<open>fetch\<close> (\<open>None\<close>: the promise never settles), whether the browser
  supports the \<^verbatim>\<open>download\<close> attribute, and the message text of an error the engine
  throws. The request URL is built from the form and the two timestamps; the answer
  to it is the environment's. The page is taken to have the elements the script looks
  up, so that \<^verbatim>\<open>updateStatus\<close> and the writes to the button do not throw.
\<close>

record form_input =
  apiKey :: string
  symbols :: string
  interval :: string
  startDateStr :: string
  endDateStr :: string
  convertToUsd :: bool

datatype json_outcome = JsonFails string | JsonValue jsval

datatype fetch_outcome = FetchFails string | Response bool nat string json_outcome

record environment =
  tza :: "int \<Rightarrow> int"
  fetched :: "fetch_outcome option"
  downloadSupported :: bool
  errorMessage :: "error \<Rightarrow> string"

text \<open>
  What the function does to the page, in order: writes to \<^verbatim>\<open>fetchButton.disabled\<close>,
  calls of \<^verbatim>\<open>updateStatus(message, type)\<close>, a download (file name, content), an alert.
\<close>

datatype event =
    SetDisabled bool
  | Status string string
  | Download string string
  | Alert string

text \<open>\<^verbatim>\<open>Math.floor(new Date(s).getTime() / 1000)\<close>, \<open>None\<close> for NaN.\<close>

definition epochSeconds :: "(int \<Rightarrow> int) \<Rightarrow> string \<Rightarrow> int option result" where
  "epochSeconds z s =
     (case newDateFromString z s of
        Inl e \<Rightarrow> Inl e
      | Inr tv \<Rightarrow> Inr (map_option (\<lambda>t. t div 1000) tv))"

text \<open>\<^verbatim>\<open>isNaN(from) || isNaN(to) || from >= to\<close>\<close>

definition invalidRange :: "int option \<Rightarrow> int option \<Rightarrow> bool" where
  "invalidRange fromTimestamp toTimestamp =
     (case fromTimestamp of
        None \<Rightarrow> True
      | Some f \<Rightarrow> (case toTimestamp of None \<Rightarrow> True | Some t \<Rightarrow> f \<ge> t))"

text \<open>
  The message thrown for a response that is not ok. The inner \<^verbatim>\<open>try\<close> replaces the
  HTTP message when the body is JSON and the text of its \<^verbatim>\<open>error\<close> field (or of the
  status text) can be built; a body that is not JSON, a null body and a field that
  cannot be converted to a string throw inside the inner \<^verbatim>\<open>try\<close> and leave it.
\<close>

definition httpErrorMessage :: "nat \<Rightarrow> string \<Rightarrow> json_outcome \<Rightarrow> string result" where
  "httpErrorMessage status statusText body =
     (let errorMsg = ''HTTP error '' @ showNat status @ '': '' @ statusText in
      case body of
        JsonFails m \<Rightarrow> Inr errorMsg
      | JsonValue errorData \<Rightarrow>
          if errorData = JNull \<or> errorData = JUndefined then Inr errorMsg
          else
            (case toStringJS (if truthy (getField errorData ''error'')
                              then getField errorData ''error'' else JStr statusText) of
               Inl Unmodelled \<Rightarrow> Inl Unmodelled
             | Inl e \<Rightarrow> Inr errorMsg
             | Inr text \<Rightarrow> Inr (''Error '' @ showNat status @ '': '' @ text)))"

text \<open>
  \<^verbatim>\<open>!item.history || item.history.length === 0\<close> for an item that is not null, and
  \<^verbatim>\<open>every\<close> over the items, which stops at the first item with history and throws a
  TypeError when it reaches a null item.
\<close>

definition historyEmpty :: "jsval \<Rightarrow> bool" where
  "historyEmpty item =
     (let history = getField item ''history'' in
      \<not> truthy history \<or>
      (case history of
         JArr xs \<Rightarrow> xs = []
       | JObj kvs \<Rightarrow> getOwn kvs ''length'' = JNum 0
       | _ \<Rightarrow> False))"

fun everyHistoryEmpty :: "jsval list \<Rightarrow> bool result" where
  "everyHistoryEmpty [] = Inr True"
| "everyHistoryEmpty (item # rest) =
     (if item = JNull \<or> item = JUndefined then Inl TypeError
      else if historyEmpty item then everyHistoryEmpty rest
      else Inr False)"

definition noLiquidationData :: "jsval \<Rightarrow> bool result" where
  "noLiquidationData liquidationData =
     (if \<not> truthy liquidationData then Inr True
      else if isArray liquidationData \<and> elems liquidationData = [] then Inr True
      else if isArray liquidationData then everyHistoryEmpty (elems liquidationData)
      else Inr False)"

text \<open>
  The file name; the replacement and the cut at 50 are by byte here, which is what the
  script does by UTF-16 code unit when the symbols are ASCII.
\<close>

definition safeSymbols :: "string \<Rightarrow> string" where
  "safeSymbols s =
     take 50 (map (\<lambda>c. if c \<in> set (''abcdefghijklmnopqrstuvwxyzABCDEFGHIJKLMNOPQRSTUVWXYZ''
                                   @ ''0123456789_,.-'') then c else CHR ''_'') s)"

definition fileName :: "form_input \<Rightarrow> string" where
  "fileName form =
     ''coinalyze_liquidations_'' @ safeSymbols (symbols form) @ ''_'' @ interval form
     @ ''_'' @ startDateStr form @ ''_to_'' @ endDateStr form @ ''.csv''"

text \<open>\<^verbatim>\<open>downloadCSV\<close>, as the events it causes.\<close>

definition downloadCSV :: "environment \<Rightarrow> string \<Rightarrow> string \<Rightarrow> event list" where
  "downloadCSV env csvString filename =
     (if downloadSupported env then [Download filename csvString]
      else [Alert ''CSV download is not supported in your browser.''])"

text \<open>
  The \<^verbatim>\<open>else\<close> branch of the \<^verbatim>\<open>try\<close> block on data that is not empty: the events up
  to its end, to its \<^verbatim>\<open>return\<close> or to a throw, and the thrown error if any.
\<close>

definition processData :: "environment \<Rightarrow> form_input \<Rightarrow> jsval \<Rightarrow> event list \<times> error option" where
  "processData env form liquidationData =
     (case parseLiquidationData liquidationData of
        Inl e \<Rightarrow> ([Status ''Processing data...'' ''info''], Some e)
      | Inr parsedData \<Rightarrow>
          if parsedData = [] then
            ([Status ''Processing data...'' ''info'',
              Status ''No valid history data found after parsing.'' ''info''], None)
          else
            (case convertToCSV (JArr parsedData) of
               Inl e \<Rightarrow> ([Status ''Processing data...'' ''info''], Some e)
             | Inr csvData \<Rightarrow>
                 if csvData \<noteq> [] then
                   (Status ''Processing data...'' ''info''
                      # downloadCSV env csvData (fileName form)
                      @ [Status (''Successfully downloaded data for ''
                                 @ showNat (length parsedData) @ '' records.'') ''success''],
                    None)
                 else
                   ([Status ''Processing data...'' ''info'',
                     Status ''Could not convert data to CSV.'' ''error''], None)))"

text \<open>
  The \<^verbatim>\<open>try\<close> block on a settled fetch: its events and what it throws, as the message
  of an \<^verbatim>\<open>Error\<close> the script or the network layer made (\<open>Inl\<close>) or as an error of the
  engine (\<open>Inr\<close>).
\<close>

definition tryBlock ::
  "environment \<Rightarrow> form_input \<Rightarrow> fetch_outcome \<Rightarrow> event list \<times> (string + error) option" where
  "tryBlock env form outcome =
     (case outcome of
        FetchFails m \<Rightarrow> ([], Some (Inl m))
      | Response ok status statusText body \<Rightarrow>
          if \<not> ok then
            (case httpErrorMessage status statusText body of
               Inl e \<Rightarrow> ([], Some (Inr e))
             | Inr errorMsg \<Rightarrow> ([], Some (Inl errorMsg)))
          else
            (case body of
               JsonFails m \<Rightarrow> ([], Some (Inl m))
             | JsonValue liquidationData \<Rightarrow>
                 (case noLiquidationData liquidationData of
                    Inl e \<Rightarrow> ([], Some (Inr e))
                  | Inr True \<Rightarrow>
                      ([Status ''No liquidation data found for the specified parameters.''
                          ''info''], None)
                  | Inr False \<Rightarrow>
                      (case processData env form liquidationData of
                         (events, None) \<Rightarrow> (events, None)
                       | (events, Some e) \<Rightarrow> (events, Some (Inr e))))))"

text \<open>
  \<^verbatim>\<open>fetchAndDownload\<close>: \<open>None\<close> when the fetch never settles, \<open>Unmodelled\<close> when a step
  is, and the events of the run otherwise. \<open>fromTimestamp\<close> and \<open>toTimestamp\<close> are the
  two constants the function computes from the date fields. \<open>requestAndExport\<close> is the
  rest of the function once both checks of the form have passed: it disables the
  button, reports the request and runs the \<^verbatim>\<open>try\<close> statement, whose \<^verbatim>\<open>catch\<close> clause
  reports what the \<^verbatim>\<open>try\<close> block threw and whose \<^verbatim>\<open>finally\<close> clause follows on every
  way out of it.
\<close>

definition catchClause :: "environment \<Rightarrow> (string + error) option \<Rightarrow> event list" where
  "catchClause env thrown =
     (case thrown of
        None \<Rightarrow> []
      | Some (Inl m) \<Rightarrow> [Status (''Error: '' @ m) ''error'']
      | Some (Inr e) \<Rightarrow> [Status (''Error: '' @ errorMessage env e) ''error''])"

definition fromTimestamp :: "environment \<Rightarrow> form_input \<Rightarrow> int option result" where
  "fromTimestamp env form = epochSeconds (tza env) (startDateStr form @ ''T00:00:00'')"

definition toTimestamp :: "environment \<Rightarrow> form_input \<Rightarrow> int option result" where
  "toTimestamp env form = epochSeconds (tza env) (endDateStr form @ ''T23:59:59.999'')"

definition requestAndExport :: "environment \<Rightarrow> form_input \<Rightarrow> event list result option" where
  "requestAndExport env form =
     (case fetched env of
        None \<Rightarrow> None
      | Some outcome \<Rightarrow>
          (case tryBlock env form outcome of
             (events, Some (Inr Unmodelled)) \<Rightarrow> Some (Inl Unmodelled)
           | (events, thrown) \<Rightarrow>
               Some (Inr ([SetDisabled True,
                           Status (''Fetching data for '' @ symbols form
                                   @ '' from '' @ startDateStr form @ '' to ''
                                   @ endDateStr form @ ''...'') ''info'']
                          @ events @ catchClause env thrown
                          @ [SetDisabled False]))))"

definition fetchAndDownload :: "environment \<Rightarrow> form_input \<Rightarrow> event list result option" where
  "fetchAndDownload env form =
     (if apiKey form = [] \<or> symbols form = [] \<or> startDateStr form = []
         \<or> endDateStr form = [] then
        Some (Inr [Status ''Please fill in API Key, Symbols, Start Date, and End Date.''
                     ''error''])
      else
        (case fromTimestamp env form of
           Inl e \<Rightarrow> Some (Inl e)
         | Inr fromTs \<Rightarrow>
             (case toTimestamp env form of
                Inl e \<Rightarrow> Some (Inl e)
              | Inr toTs \<Rightarrow>
                  if invalidRange fromTs toTs then
                    Some (Inr [Status ''Invalid date range selected.'' ''error''])
                  else requestAndExport env form)))"

section \<open>What the flattener is expected to return\<close>

text \<open>
  An entry is counted when it has a truthy \<^verbatim>\<open>symbol\<close> and an array-valued
  \<^verbatim>\<open>history\<close>; \<open>expectedCount\<close> sums \<^verbatim>\<open>history.length\<close> over the counted entries.
\<close>

definition validEntry :: "jsval \<Rightarrow> bool" where
  "validEntry symbolData =
     (truthy (getField symbolData ''symbol'') \<and> isArray (getField symbolData ''history''))"

definition expectedCount :: "jsval list \<Rightarrow> nat" where
  "expectedCount xs =
     sum_list (map (\<lambda>symbolData.
        if validEntry symbolData then length (elems (getField symbolData ''history'')) else 0) xs)"

text \<open>
  The history items on which \<open>stampEntry\<close> returns: booleans, numbers, strings, and
  plain objects whose \<^verbatim>\<open>t\<close> is falsy, \<^verbatim>\<open>true\<close>, or a number within the range of time
  values.
\<close>

fun validTime :: "jsval \<Rightarrow> bool" where
  "validTime (JNum q) = (\<bar>q\<bar> \<le> 8640000000000000)"
| "validTime (JBool b) = True"
| "validTime v = False"

fun stampable :: "jsval \<Rightarrow> bool" where
  "stampable JUndefined = False"
| "stampable JNull = False"
| "stampable (JArr xs) = False"
| "stampable (JFunction name) = False"
| "stampable (JObj kvs) = (\<not> truthy (getOwn kvs ''t'') \<or> validTime (getOwn kvs ''t''))"
| "stampable v = True"

section \<open>What the serializer is expected to return\<close>

text \<open>
  The header the specification describes: the keys of the first record, with
  \<^verbatim>\<open>symbol\<close> and \<^verbatim>\<open>timestamp_iso\<close> moved to the front when they are among them.
\<close>

definition claimedHeader :: "string list \<Rightarrow> string list" where
  "claimedHeader keys =
     filter (\<lambda>h. h = ''symbol'') keys @ filter (\<lambda>h. h = ''timestamp_iso'') keys
     @ filter (\<lambda>h. h \<noteq> ''symbol'' \<and> h \<noteq> ''timestamp_iso'') keys"

text \<open>
  The quoting rule in the specification's words: a string needs quoting when it contains
  a comma, a line feed or a double quote; the quoted form wraps it in double quotes and
  doubles every double quote inside. \<open>cellValue\<close> is the value that is stringified:
  the empty string for null and undefined.
\<close>

primrec doubled :: "string \<Rightarrow> string" where
  "doubled [] = []"
| "doubled (c # cs) = (if c = DQ then DQ # DQ # doubled cs else c # doubled cs)"

definition needsQuoting :: "string \<Rightarrow> bool" where
  "needsQuoting s = (CHR '','' \<in> set s \<or> NL \<in> set s \<or> DQ \<in> set s)"

definition quotedForm :: "string \<Rightarrow> string" where
  "quotedForm s = DQ # doubled s @ [DQ]"

definition cellValue :: "jsval \<Rightarrow> jsval" where
  "cellValue v = (if v = JNull \<or> v = JUndefined then JStr [] else v)"


text \<open>
  Records on which \<open>convertToCSV\<close> is sure to return: plain objects whose fields under
  the header columns are strings, booleans, null or whole numbers below \<open>2 ^ 53\<close> in
  magnitude.
\<close>

fun plainValue :: "jsval \<Rightarrow> bool" where
  "plainValue (JNum q) = wholeNumber q"
| "plainValue (JArr xs) = False"
| "plainValue (JObj kvs) = False"
| "plainValue v = True"

definition plainRecord :: "string list \<Rightarrow> jsval \<Rightarrow> bool" where
  "plainRecord headers row =
     (case row of
        JObj kvs \<Rightarrow>
          list_all (\<lambda>h. case map_of kvs h of Some v \<Rightarrow> plainValue v | None \<Rightarrow> True) headers
      | _ \<Rightarrow> False)"

text \<open>
  Reading a CSV document back, by the usual rules: fields are separated by commas and
  records by line feeds (the document is joined with line feeds); a field that begins
  with a double quote runs to the closing double quote, commas and line feeds inside
  it are data and two double quotes stand for one. A double quote inside an unquoted
  field, text after a closing quote and an unclosed quote are malformed: the strict
  reader rejects the document (\<open>None\<close>), the lenient reader, as many programs do,
  takes the characters as data and lets the document end an unclosed field.
\<close>

datatype csv_state = FieldStart | InPlain | InQuoted | AfterQuote

fun csvScan ::
  "bool \<Rightarrow> csv_state \<Rightarrow> string \<Rightarrow> string list \<Rightarrow> string \<Rightarrow> string list list option" where
  "csvScan lenient st field row [] =
     (if st = InQuoted \<and> \<not> lenient then None else Some [row @ [field]])"
| "csvScan lenient FieldStart field row (c # cs) =
     (if c = DQ then csvScan lenient InQuoted [] row cs
      else if c = CHR '','' then csvScan lenient FieldStart [] (row @ [[]]) cs
      else if c = NL then map_option ((#) (row @ [[]])) (csvScan lenient FieldStart [] [] cs)
      else csvScan lenient InPlain [c] row cs)"
| "csvScan lenient InPlain field row (c # cs) =
     (if c = DQ then (if lenient then csvScan lenient InPlain (field @ [c]) row cs else None)
      else if c = CHR '','' then csvScan lenient FieldStart [] (row @ [field]) cs
      else if c = NL then map_option ((#) (row @ [field])) (csvScan lenient FieldStart [] [] cs)
      else csvScan lenient InPlain (field @ [c]) row cs)"
| "csvScan lenient InQuoted field row (c # cs) =
     (if c = DQ then csvScan lenient AfterQuote field row cs
      else csvScan lenient InQuoted (field @ [c]) row cs)"
| "csvScan lenient AfterQuote field row (c # cs) =
     (if c = DQ then csvScan lenient InQuoted (field @ [DQ]) row cs
      else if c = CHR '','' then csvScan lenient FieldStart [] (row @ [field]) cs
      else if c = NL then map_option ((#) (row @ [field])) (csvScan lenient FieldStart [] [] cs)
      else if lenient then csvScan lenient InPlain (field @ [c]) row cs
      else None)"

definition readCSV :: "bool \<Rightarrow> string \<Rightarrow> string list list option" where
  "readCSV lenient s = csvScan lenient FieldStart [] [] s"

text \<open>
  The text a cell stands for (\<open>cellText\<close>), and how a string and a row of strings
  are written under the quoting rule.
\<close>

definition cellText :: "jsval \<Rightarrow> string \<Rightarrow> string result" where
  "cellText row header =
     (case readProp row header of Inl e \<Rightarrow> Inl e | Inr v \<Rightarrow> toStringJS (cellValue v))"

definition csvQuote :: "string \<Rightarrow> string" where
  "csvQuote s = (if needsQuoting s then quotedForm s else s)"

definition renderRow :: "string list \<Rightarrow> string" where
  "renderRow cells = joinWith '','' (map csvQuote cells)"


text \<open>
  The fields of a line that holds no double quote: the pieces between its commas.
\<close>

fun splitFields :: "string \<Rightarrow> string \<Rightarrow> string list" where
  "splitFields field [] = [field]"
| "splitFields field (c # cs) =
     (if c = CHR '','' then field # splitFields [] cs else splitFields (field @ [c]) cs)"

text \<open>
  What the reader does at the end of a field, on the rest of the input, which is empty
  or begins with a comma or a line feed.
\<close>

fun fieldEnd :: "bool \<Rightarrow> string \<Rightarrow> string list \<Rightarrow> string \<Rightarrow> string list list option" where
  "fieldEnd lenient field row [] = Some [row @ [field]]"
| "fieldEnd lenient field row (c # cs) =
     (if c = CHR '','' then csvScan lenient FieldStart [] (row @ [field]) cs
      else map_option ((#) (row @ [field])) (csvScan lenient FieldStart [] [] cs))"

definition boundary :: "string \<Rightarrow> bool" where
  "boundary rest = (rest = [] \<or> hd rest = CHR '','' \<or> hd rest = NL)"

section \<open>What the date range and the fetch control are expected to do\<close>

text \<open>
  A calendar day, the value a date input holds for it (\<^verbatim>\<open>YYYY-MM-DD\<close>), and the time
  value of its local midnight before the zone offset is applied. A zone is steady over
  the day that starts at local time \<open>t\<close> when its offsets at both ends of the day are at
  most a day and the offset at the end is less than 23:59:59 ahead of the offset at the
  start; zones with a fixed offset and zones with daylight-saving steps are.
\<close>

definition dateInputValue :: "int \<Rightarrow> int \<Rightarrow> int \<Rightarrow> string" where
  "dateInputValue year month date =
     fixedDigits 4 (nat year) @ ''-'' @ fixedDigits 2 (nat month) @ ''-'' @ fixedDigits 2 (nat date)"

definition calendarDay :: "int \<Rightarrow> int \<Rightarrow> int \<Rightarrow> bool" where
  "calendarDay year month date =
     (0 \<le> year \<and> year \<le> 9999 \<and> 1 \<le> month \<and> month \<le> 12
      \<and> 1 \<le> date \<and> date \<le> DaysInMonth year month)"

definition localMidnight :: "int \<Rightarrow> int \<Rightarrow> int \<Rightarrow> int" where
  "localMidnight year month date = MakeDate (MakeDay year (month - 1) date) 0"

definition steadyZone :: "(int \<Rightarrow> int) \<Rightarrow> int \<Rightarrow> bool" where
  "steadyZone z t =
     (\<bar>z t\<bar> \<le> msPerDay \<and> \<bar>z (t + 86399999)\<bar> \<le> msPerDay
      \<and> z (t + 86399999) - z t \<le> 86398999)"

text \<open>
  The epoch second of the local time \<open>t\<close> in a zone with offset \<open>z\<close>: the time in UTC
  is the local time less the offset, and the second is its thousandth, rounded down.
\<close>

definition epochSecond :: "(int \<Rightarrow> int) \<Rightarrow> int \<Rightarrow> int" where
  "epochSecond z t = (t - z t) div 1000"

text \<open>The values written to \<^verbatim>\<open>fetchButton.disabled\<close>, in order.\<close>

definition buttonWrites :: "event list \<Rightarrow> bool list" where
  "buttonWrites events = concat (map (\<lambda>e. case e of SetDisabled b \<Rightarrow> [b] | _ \<Rightarrow> []) events)"

text \<open>
  The millisecond epoch of an ISO-8601 date-time string in UTC, \<open>None\<close> when the string
  is not a valid one; the whole part of a number, which is the number without its
  fractional digits; and the history items in the order they are flattened, each with
  the symbol of its entry.
\<close>

definition wholePart :: "rat \<Rightarrow> int" where
  "wholePart q = (if q < 0 then - \<lfloor>- q\<rfloor> else \<lfloor>q\<rfloor>)"

definition isoEpoch :: "string \<Rightarrow> int option" where
  "isoEpoch s = (case parseDateTime s of Some (t, True) \<Rightarrow> Some t | _ \<Rightarrow> None)"

definition flatItems :: "jsval list \<Rightarrow> (jsval \<times> jsval) list" where
  "flatItems xs =
     concat (map (\<lambda>symbolData.
        if validEntry symbolData
        then map (Pair (getField symbolData ''symbol'')) (elems (getField symbolData ''history''))
        else []) xs)"

section \<open>Properties of parseLiquidationData\<close>

lemma map_of_setOwn:
  "map_of (setOwn kvs k v) k' = (if k' = k then Some v else map_of kvs k')"
  by (induction kvs) auto

lemma getOwn_setOwn:
  "getOwn (setOwn kvs k v) k' = (if k' = k then v else getOwn kvs k')"
  by (simp add: getOwn_def map_of_setOwn)

lemma skip_iff_not_valid:
  "(\<not> truthy symbolData \<or> \<not> truthy (getField symbolData ''symbol'')
     \<or> \<not> isArray (getField symbolData ''history'')) = (\<not> validEntry symbolData)"
  by (cases symbolData) (auto simp add: validEntry_def)

lemma stampAll_length:
  "stampAll symbol es allData = Inr r \<Longrightarrow> length r = length allData + length es"
proof (induction es arbitrary: allData)
  case Nil
  then show ?case by simp
next
  case (Cons e es)
  then show ?case by (auto split: sum.splits)
qed

lemma flattenAll_length:
  "flattenAll xs allData = Inr r \<Longrightarrow> length r = length allData + expectedCount xs"
proof (induction xs arbitrary: allData)
  case Nil
  then show ?case by (simp add: expectedCount_def)
next
  case (Cons x xs)
  show ?case
  proof (cases "validEntry x")
    case False
    with Cons.prems have "flattenAll xs allData = Inr r"
      using skip_iff_not_valid [of x] by simp
    from Cons.IH [OF this] False show ?thesis by (simp add: expectedCount_def)
  next
    case True
    then have noskip: "\<not> (\<not> truthy x \<or> \<not> truthy (getField x ''symbol'')
        \<or> \<not> isArray (getField x ''history''))"
      using skip_iff_not_valid [of x] by simp
    from Cons.prems noskip obtain mid where
      mid: "stampAll (getField x ''symbol'') (elems (getField x ''history'')) allData = Inr mid"
      and rest: "flattenAll xs mid = Inr r"
      by (auto split: sum.splits)
    from stampAll_length [OF mid] Cons.IH [OF rest] True
    show ?thesis by (simp add: expectedCount_def)
  qed
qed

lemma ToIntegerOrInfinity_wholePart: "ToIntegerOrInfinity q = wholePart q"
  by (simp add: ToIntegerOrInfinity_def wholePart_def ceiling_def)

lemma wholePart_of_int: "wholePart (of_int n) = n"
  by (simp add: wholePart_def)

lemma TimeClip_of_int:
  "TimeClip (of_int t) = (if \<bar>t\<bar> > 8640000000000000 then None else Some t)"
proof -
  have "\<bar>rat_of_int t\<bar> = of_int \<bar>t\<bar>" by simp
  then have "(\<bar>rat_of_int t\<bar> \<le> 8640000000000000) = (\<bar>t\<bar> \<le> 8640000000000000)"
    by (simp only: of_int_le_numeral_iff)
  then have "(\<bar>rat_of_int t\<bar> > 8640000000000000) = (\<bar>t\<bar> > 8640000000000000)"
    by (simp only: not_le [symmetric])
  then show ?thesis
    by (simp only: TimeClip_def ToIntegerOrInfinity_wholePart wholePart_of_int)
qed

lemma wholePart_range:
  assumes "\<bar>q\<bar> \<le> 8640000000000000"
  shows "\<bar>wholePart q\<bar> \<le> 8640000000000000"
proof (cases "q < 0")
  case True
  then have "0 \<le> - q" "- q \<le> 8640000000000000" using assms by simp_all
  then have "0 \<le> \<lfloor>- q\<rfloor>" "\<lfloor>- q\<rfloor> \<le> 8640000000000000"
    by (simp_all add: floor_le_iff)
  with True show ?thesis by (simp add: wholePart_def)
next
  case False
  then have "0 \<le> q" "q \<le> 8640000000000000" using assms by simp_all
  then have "0 \<le> \<lfloor>q\<rfloor>" "\<lfloor>q\<rfloor> \<le> 8640000000000000"
    by (simp_all add: floor_le_iff)
  with False show ?thesis by (simp add: wholePart_def)
qed

lemma stampEntry_returns:
  "stampable e \<Longrightarrow> \<exists>e'. stampEntry symbol e = Inr e'"
proof (cases e)
  case (JObj kvs)
  assume st: "stampable e"
  show ?thesis
  proof (cases "truthy (getOwn kvs ''t'')")
    case False
    with JObj show ?thesis by (simp add: getOwn_setOwn)
  next
    case True
    with st JObj have vt: "validTime (getOwn kvs ''t'')" by simp
    then show ?thesis using JObj True
      by (cases "getOwn kvs ''t''")
        (auto simp add: getOwn_setOwn TimeClip_def toISOString_def)
  qed
qed auto

lemma stampAll_returns:
  "\<forall>e \<in> set es. stampable e \<Longrightarrow> \<exists>r. stampAll symbol es allData = Inr r"
proof (induction es arbitrary: allData)
  case Nil
  then show ?case by simp
next
  case (Cons e es)
  then obtain e' where "stampEntry symbol e = Inr e'"
    using stampEntry_returns [of e symbol] by auto
  with Cons show ?case by simp
qed

lemma flattenAll_returns:
  "\<forall>x \<in> set xs. validEntry x \<longrightarrow> (\<forall>e \<in> set (elems (getField x ''history'')). stampable e)
    \<Longrightarrow> \<exists>r. flattenAll xs allData = Inr r"
proof (induction xs arbitrary: allData)
  case Nil
  then show ?case by simp
next
  case (Cons x xs)
  show ?case
  proof (cases "validEntry x")
    case False
    then show ?thesis using Cons skip_iff_not_valid [of x] by simp
  next
    case True
    then have noskip: "\<not> (\<not> truthy x \<or> \<not> truthy (getField x ''symbol'')
        \<or> \<not> isArray (getField x ''history''))"
      using skip_iff_not_valid [of x] by simp
    from True Cons.prems
    have "\<forall>e \<in> set (elems (getField x ''history'')). stampable e" by simp
    from stampAll_returns [OF this, of "getField x ''symbol''" allData] obtain mid where
      "stampAll (getField x ''symbol'') (elems (getField x ''history'')) allData = Inr mid"
      by blast
    then show ?thesis using Cons noskip by simp
  qed
qed

text \<open>
  Claim C1, as the code has it. Whenever \<open>parseLiquidationData\<close> returns on an array,
  the number of records is the sum of \<^verbatim>\<open>history.length\<close> over the entries with a truthy
  \<^verbatim>\<open>symbol\<close> and an array-valued \<^verbatim>\<open>history\<close>, the other entries adding nothing and
  not making it fail; and it returns whenever every history item of a counted entry is
  a boolean, a number, a string or a plain object whose \<^verbatim>\<open>t\<close> is falsy, \<^verbatim>\<open>true\<close> or a
  number of magnitude at most 8.64e15.
\<close>

theorem parse_count:
  "(parseLiquidationData (JArr xs) = Inr recs \<longrightarrow> length recs = expectedCount xs)
   \<and> ((\<forall>x \<in> set xs. validEntry x \<longrightarrow>
          (\<forall>e \<in> set (elems (getField x ''history'')). stampable e))
        \<longrightarrow> (\<exists>r. parseLiquidationData (JArr xs) = Inr r \<and> length r = expectedCount xs))"
proof (intro conjI impI)
  assume "parseLiquidationData (JArr xs) = Inr recs"
  then show "length recs = expectedCount xs"
    using flattenAll_length [of xs "[]" recs] by (simp add: parseLiquidationData_def)
next
  assume "\<forall>x \<in> set xs. validEntry x \<longrightarrow>
      (\<forall>e \<in> set (elems (getField x ''history'')). stampable e)"
  then obtain r where r: "flattenAll xs [] = Inr r"
    using flattenAll_returns [of xs "[]"] by auto
  then have "length r = expectedCount xs"
    using flattenAll_length [of xs "[]" r] by simp
  with r show "\<exists>r. parseLiquidationData (JArr xs) = Inr r \<and> length r = expectedCount xs"
    by (simp add: parseLiquidationData_def)
qed

theorem parse_count_witness:
  "\<exists>r. parseLiquidationData
        (JArr [JObj [(''symbol'', JStr ''BTCUSD''),
                     (''history'', JArr [JObj [(''t'', JNum 1700000000000), (''l'', JNum 100)],
                                         JObj [(''l'', JNum 7)]])],
               JObj [(''history'', JArr [JObj [(''t'', JNum 5)]])],
               JNull]) = Inr r
      \<and> length r = 2"
proof -
  let ?xs = "[JObj [(''symbol'', JStr ''BTCUSD''),
                    (''history'', JArr [JObj [(''t'', JNum 1700000000000), (''l'', JNum 100)],
                                        JObj [(''l'', JNum 7)]])],
              JObj [(''history'', JArr [JObj [(''t'', JNum 5)]])],
              JNull]"
  have h: "\<forall>x \<in> set ?xs. validEntry x \<longrightarrow>
      (\<forall>e \<in> set (elems (getField x ''history'')). stampable e)"
    by (simp add: validEntry_def getOwn_def)
  have c: "expectedCount ?xs = 2"
    by (simp add: expectedCount_def validEntry_def getOwn_def)
  from parse_count [of ?xs] h
  have "\<exists>r. parseLiquidationData (JArr ?xs) = Inr r \<and> length r = expectedCount ?xs"
    by blast
  with c show ?thesis by simp
qed

text \<open>
  Claim C1 as stated fails: a null history item makes the whole call throw, so no
  records are returned for an array whose only entry has the required shape.
\<close>

theorem parse_count_counterexample:
  "validEntry (JObj [(''symbol'', JStr ''BTCUSD''), (''history'', JArr [JNull])])
   \<and> expectedCount [JObj [(''symbol'', JStr ''BTCUSD''), (''history'', JArr [JNull])]] = 1
   \<and> parseLiquidationData
        (JArr [JObj [(''symbol'', JStr ''BTCUSD''), (''history'', JArr [JNull])]])
      = Inl TypeError"
  by (simp add: validEntry_def expectedCount_def parseLiquidationData_def getOwn_def)

text \<open>
  Claim C6. \<open>convertToCSV\<close> returns the empty string on an empty array, on null and
  on undefined, and \<open>parseLiquidationData\<close> returns an empty sequence, without
  throwing, on every input that is not an array (null and undefined among them).
\<close>

theorem empty_input_law:
  "convertToCSV (JArr []) = Inr [] \<and> convertToCSV JNull = Inr []
   \<and> convertToCSV JUndefined = Inr []
   \<and> (\<not> isArray data \<longrightarrow> parseLiquidationData data = Inr [])"
  by (simp add: parseLiquidationData_def)

theorem empty_input_law_witness:
  "\<not> isArray JNull \<and> parseLiquidationData JNull = Inr []
   \<and> \<not> isArray (JObj [(''error'', JStr ''rate limited'')])
   \<and> parseLiquidationData (JObj [(''error'', JStr ''rate limited'')]) = Inr []"
  using empty_input_law [of JNull] empty_input_law [of "JObj [(''error'', JStr ''rate limited'')]"]
  by simp

section \<open>Properties of convertToCSV\<close>

lemmas csv_eval = csvRow_def csvCell_def orderHeaders_def doubleQuotes_def objectPrototypeNames_def
  inherited_def nativeFunctionText_def wholeNumber_def showInt_def showNat.simps digitChar_def


lemma mapResult_Inr:
  "mapResult f xs = Inr ys \<Longrightarrow> length ys = length xs \<and> (\<forall>i < length xs. f (xs ! i) = Inr (ys ! i))"
proof (induction xs arbitrary: ys)
  case Nil
  then show ?case by simp
next
  case (Cons x xs)
  then show ?case by (auto split: sum.splits simp add: nth_Cons split: nat.splits)
qed

lemma convertToCSV_Inr:
  "convertToCSV (JArr (first # rest)) = Inr out \<Longrightarrow>
    \<exists>headers lines. ownKeys first = Inr headers
      \<and> mapResult (csvRow (orderHeaders headers)) (first # rest) = Inr lines
      \<and> out = joinWith [NL] (joinWith '','' (orderHeaders headers) # lines)"
  by (auto split: sum.splits simp add: Let_def simp del: mapResult.simps)



lemma doubleQuotes_doubled: "doubleQuotes s = doubled s"
  by (induction s) (simp_all add: doubleQuotes_def)

lemma filter_eq_singleton:
  "distinct xs \<Longrightarrow> k \<in> set xs \<Longrightarrow> filter (\<lambda>h. h = k) xs = [k]"
proof (induction xs)
  case Nil
  then show ?case by simp
next
  case (Cons x xs)
  then show ?case by (auto simp add: filter_empty_conv)
qed

text \<open>
  Where the first record has both keys (as after flattening an item with a truthy
  \<^verbatim>\<open>t\<close>), the header of the code is the header of the specification.
\<close>

lemma header_order_when_present:
  assumes "distinct keys" and "''symbol'' \<in> set keys" and "''timestamp_iso'' \<in> set keys"
  shows "orderHeaders keys = claimedHeader keys"
  using assms by (simp add: orderHeaders_def claimedHeader_def filter_eq_singleton)

lemma flattened_item_without_t:
  "parseLiquidationData
     (JArr [JObj [(''symbol'', JStr ''BTCUSD''), (''history'', JArr [JObj [(''l'', JNum 100)]])]])
     = Inr [JObj [(''l'', JNum 100), (''symbol'', JStr ''BTCUSD'')]]"
  by (simp add: parseLiquidationData_def getOwn_def)

text \<open>
  Claim C3 at a first record without \<^verbatim>\<open>timestamp_iso\<close>, as flattening yields for a
  history item without \<^verbatim>\<open>t\<close> (\<open>flattened_item_without_t\<close>): the keys of the record
  are \<^verbatim>\<open>l\<close>, \<^verbatim>\<open>symbol\<close>, the claimed header is \<^verbatim>\<open>symbol,l\<close>, and the code writes \<^verbatim>\<open>symbol,timestamp_iso,l\<close>.
\<close>

theorem header_order_failing_input:
  "ownKeys (JObj [(''l'', JNum 100), (''symbol'', JStr ''BTCUSD'')]) = Inr [''l'', ''symbol'']
   \<and> joinWith '','' (claimedHeader [''l'', ''symbol'']) = ''symbol,l''
   \<and> convertToCSV (JArr [JObj [(''l'', JNum 100), (''symbol'', JStr ''BTCUSD'')]])
     = Inr (''symbol,timestamp_iso,l'' @ [NL] @ ''BTCUSD,,100'')"
  by (simp add: csv_eval claimedHeader_def)

text \<open>
  Claim C4. A cell is the stringified value of the field (the empty string for null
  and undefined); it is wrapped in double quotes, with the double quotes inside
  doubled, when the string contains a comma, a line feed or a double quote, and it is
  the string itself exactly when the string contains none of them.
\<close>

theorem cell_quoting:
  assumes "readProp row header = Inr v" and "toStringJS (cellValue v) = Inr s"
  shows "csvCell row header = Inr (if needsQuoting s then quotedForm s else s)
    \<and> (csvCell row header = Inr s) = (\<not> needsQuoting s)"
proof -
  have c: "csvCell row header = Inr (if needsQuoting s then quotedForm s else s)"
    using assms
    by (simp add: csvCell_def cellValue_def needsQuoting_def quotedForm_def
        doubleQuotes_doubled Let_def)
  have "length (doubled s) \<ge> length s" by (induction s) simp_all
  then have "quotedForm s \<noteq> s" by (auto simp add: quotedForm_def dest: arg_cong [where f = length])
  with c show ?thesis by simp
qed

theorem cell_quoting_witness:
  "csvCell (JObj [(''note'', JStr (''say '' @ [DQ] @ ''hi'' @ [DQ] @ '', ok''))]) ''note''
     = Inr ([DQ] @ ''say '' @ [DQ, DQ] @ ''hi'' @ [DQ, DQ] @ '', ok'' @ [DQ])
   \<and> csvCell (JObj [(''l'', JNum 100)]) ''l'' = Inr ''100''"
proof -
  have a: "readProp (JObj [(''note'', JStr (''say '' @ [DQ] @ ''hi'' @ [DQ] @ '', ok''))]) ''note''
      = Inr (JStr (''say '' @ [DQ] @ ''hi'' @ [DQ] @ '', ok''))" by simp
  have b: "toStringJS (cellValue (JStr (''say '' @ [DQ] @ ''hi'' @ [DQ] @ '', ok'')))
      = Inr (''say '' @ [DQ] @ ''hi'' @ [DQ] @ '', ok'')" by (simp add: cellValue_def)
  have c: "readProp (JObj [(''l'', JNum 100)]) ''l'' = Inr (JNum 100)" by simp
  have d: "toStringJS (cellValue (JNum 100)) = Inr ''100''"
    by (simp add: cellValue_def wholeNumber_def showInt_def showNat.simps digitChar_def)
  from cell_quoting [OF a b] cell_quoting [OF c d] show ?thesis
    by (simp add: needsQuoting_def quotedForm_def)
qed





text \<open>On plain records \<open>convertToCSV\<close> returns.\<close>

lemma toStringJS_plain: "plainValue v \<Longrightarrow> \<exists>s. toStringJS (cellValue v) = Inr s"
  by (cases v) (simp_all add: cellValue_def)

lemma csvCell_returns:
  assumes "case map_of kvs h of Some v \<Rightarrow> plainValue v | None \<Rightarrow> True"
  shows "\<exists>c. csvCell (JObj kvs) h = Inr c"
proof (cases "map_of kvs h")
  case None
  then show ?thesis by (simp add: csvCell_def inherited_def)
next
  case (Some v)
  with assms obtain s where "toStringJS (cellValue v) = Inr s"
    using toStringJS_plain [where v = v] by auto
  with Some show ?thesis by (simp add: csvCell_def cellValue_def)
qed

lemma csvRow_returns:
  assumes "plainRecord hs row"
  shows "\<exists>line. csvRow hs row = Inr line"
proof -
  from assms obtain kvs where row: "row = JObj kvs"
    and all: "list_all (\<lambda>h. case map_of kvs h of Some v \<Rightarrow> plainValue v | None \<Rightarrow> True) hs"
    by (cases row) (simp_all add: plainRecord_def)
  from all have "\<exists>cells. mapResult (csvCell (JObj kvs)) hs = Inr cells"
  proof (induction hs)
    case Nil
    then show ?case by simp
  next
    case (Cons h hs)
    then obtain c cells where "csvCell (JObj kvs) h = Inr c"
      "mapResult (csvCell (JObj kvs)) hs = Inr cells"
      using csvCell_returns [where kvs = kvs and h = h] by auto
    then show ?case by simp
  qed
  with row show ?thesis by (auto simp add: csvRow_def)
qed

lemma csvRows_return:
  "list_all (plainRecord hs) rows \<Longrightarrow> \<exists>lines. mapResult (csvRow hs) rows = Inr lines"
proof (induction rows)
  case Nil
  then show ?case by simp
next
  case (Cons r rows)
  then obtain l ls where "csvRow hs r = Inr l" "mapResult (csvRow hs) rows = Inr ls"
    using csvRow_returns [where hs = hs and row = r] by auto
  then show ?case by simp
qed

lemma convertToCSV_returns:
  assumes "list_all (plainRecord (orderHeaders (map fst kvs))) (JObj kvs # rest)"
  shows "\<exists>out. convertToCSV (JArr (JObj kvs # rest)) = Inr out"
proof -
  from csvRows_return [OF assms] obtain lines where
    "mapResult (csvRow (orderHeaders (map fst kvs))) (JObj kvs # rest) = Inr lines"
    by blast
  then show ?thesis by (simp add: Let_def del: mapResult.simps)
qed









section \<open>Reading the document back\<close>

lemma scan_plain:
  "\<not> needsQuoting s \<Longrightarrow> boundary rest \<Longrightarrow>
     csvScan lenient InPlain f row (s @ rest) = fieldEnd lenient (f @ s) row rest"
proof (induction s arbitrary: f)
  case Nil
  then show ?case by (cases rest) (auto simp add: boundary_def)
next
  case (Cons c s)
  then show ?case by (auto simp add: needsQuoting_def)
qed

lemma scan_quoted:
  "boundary rest \<Longrightarrow>
     csvScan lenient InQuoted f row (doubled s @ DQ # rest) = fieldEnd lenient (f @ s) row rest"
proof (induction s arbitrary: f)
  case Nil
  then show ?case by (cases rest) (auto simp add: boundary_def)
next
  case (Cons c s)
  then show ?case by simp
qed

lemma scan_cell:
  assumes "boundary rest"
  shows "csvScan lenient FieldStart [] row (csvQuote s @ rest) = fieldEnd lenient s row rest"
proof (cases "needsQuoting s")
  case True
  then show ?thesis using scan_quoted [OF assms, where f = "[]" and s = s and row = row and lenient = lenient]
    by (simp add: csvQuote_def quotedForm_def)
next
  case False
  show ?thesis
  proof (cases s)
    case Nil
    then show ?thesis using assms by (cases rest) (auto simp add: csvQuote_def boundary_def needsQuoting_def)
  next
    case (Cons c s')
    with False have "\<not> needsQuoting s'" and "c \<noteq> DQ" "c \<noteq> CHR '',''" "c \<noteq> NL"
      by (auto simp add: needsQuoting_def)
    then show ?thesis using scan_plain [OF _ assms, where s = s' and f = "[c]" and row = row and lenient = lenient] Cons False
      by (simp add: csvQuote_def)
  qed
qed

lemma scan_row:
  assumes "rest = [] \<or> hd rest = NL"
  shows "cells \<noteq> [] \<Longrightarrow>
     csvScan lenient FieldStart [] row (renderRow cells @ rest)
       = (case rest of [] \<Rightarrow> Some [row @ cells]
          | c # cs \<Rightarrow> map_option ((#) (row @ cells)) (csvScan lenient FieldStart [] [] cs))"
proof (induction cells arbitrary: row)
  case Nil
  then show ?case by simp
next
  case (Cons x xs)
  show ?case
  proof (cases xs)
    case Nil
    have b: "boundary rest" using assms by (auto simp add: boundary_def)
    show ?thesis using scan_cell [OF b, where row = row and s = x and lenient = lenient] assms Nil
      by (cases rest) (auto simp add: renderRow_def)
  next
    case (Cons y ys)
    have b: "boundary (CHR '','' # renderRow xs @ rest)" by (simp add: boundary_def)
    have "renderRow (x # xs) @ rest = csvQuote x @ (CHR '','' # renderRow xs @ rest)"
      using Cons by (simp add: renderRow_def)
    then have "csvScan lenient FieldStart [] row (renderRow (x # xs) @ rest)
        = csvScan lenient FieldStart [] (row @ [x]) (renderRow xs @ rest)"
      using scan_cell [OF b, where row = row and s = x and lenient = lenient] by simp
    also have "\<dots> = (case rest of [] \<Rightarrow> Some [(row @ [x]) @ xs]
          | c # cs \<Rightarrow> map_option ((#) ((row @ [x]) @ xs)) (csvScan lenient FieldStart [] [] cs))"
      using Cons.IH [of "row @ [x]"] Cons by simp
    finally show ?thesis by (simp split: list.splits)
  qed
qed

lemma scan_rows:
  "rows \<noteq> [] \<Longrightarrow> \<forall>r \<in> set rows. r \<noteq> [] \<Longrightarrow>
     csvScan lenient FieldStart [] [] (joinWith [NL] (map renderRow rows)) = Some rows"
proof (induction rows)
  case Nil
  then show ?case by simp
next
  case (Cons r rows)
  show ?case
  proof (cases rows)
    case Nil
    then show ?thesis using scan_row [where rest = "[]" and cells = r and row = "[]" and lenient = lenient] Cons.prems by simp
  next
    case (Cons r' rows')
    have "joinWith [NL] (map renderRow (r # rows))
        = renderRow r @ (NL # joinWith [NL] (map renderRow rows))"
      using Cons by simp
    then show ?thesis
      using scan_row [where rest = "NL # joinWith [NL] (map renderRow rows)" and cells = r and row = "[]"
          and lenient = lenient] Cons.IH Cons.prems Cons
      by simp
  qed
qed


lemma mapResult_compose:
  assumes "\<And>x. f x = (case g x of Inl e \<Rightarrow> Inl e | Inr y \<Rightarrow> Inr (k y))"
  shows "mapResult f xs = (case mapResult g xs of Inl e \<Rightarrow> Inl e | Inr ys \<Rightarrow> Inr (map k ys))"
proof (induction xs)
  case Nil
  then show ?case by simp
next
  case (Cons x xs)
  then show ?case by (simp add: assms split: sum.splits)
qed

lemma csvCell_cellText:
  "csvCell row h = (case cellText row h of Inl e \<Rightarrow> Inl e | Inr s \<Rightarrow> Inr (csvQuote s))"
proof (cases "readProp row h")
  case (Inl e)
  then show ?thesis by (simp add: csvCell_def cellText_def)
next
  case (Inr v)
  then show ?thesis
    by (cases "toStringJS (cellValue v)")
      (simp_all add: csvCell_def cellText_def cellValue_def csvQuote_def needsQuoting_def
        quotedForm_def doubleQuotes_doubled)
qed

lemma csvRow_cellText:
  "csvRow hs row =
     (case mapResult (cellText row) hs of Inl e \<Rightarrow> Inl e | Inr ss \<Rightarrow> Inr (renderRow ss))"
proof -
  have "mapResult (csvCell row) hs =
      (case mapResult (cellText row) hs of Inl e \<Rightarrow> Inl e | Inr ss \<Rightarrow> Inr (map csvQuote ss))"
    by (rule mapResult_compose) (rule csvCell_cellText)
  then show ?thesis by (simp add: csvRow_def renderRow_def split: sum.splits)
qed

lemma csvRows_cellText:
  "mapResult (csvRow hs) xs =
     (case mapResult (\<lambda>row. mapResult (cellText row) hs) xs of
        Inl e \<Rightarrow> Inl e
      | Inr raws \<Rightarrow> Inr (map renderRow raws))"
  by (rule mapResult_compose) (rule csvRow_cellText)

lemma scan_line:
  assumes "rest = [] \<or> hd rest = NL"
  shows "DQ \<notin> set line \<Longrightarrow> NL \<notin> set line \<Longrightarrow>
     csvScan lenient FieldStart [] row (line @ rest)
       = (case rest of [] \<Rightarrow> Some [row @ splitFields [] line]
          | c # cs \<Rightarrow> map_option ((#) (row @ splitFields [] line)) (csvScan lenient FieldStart [] [] cs))
     \<and> csvScan lenient InPlain f row (line @ rest)
       = (case rest of [] \<Rightarrow> Some [row @ splitFields f line]
          | c # cs \<Rightarrow> map_option ((#) (row @ splitFields f line)) (csvScan lenient FieldStart [] [] cs))"
proof (induction line arbitrary: row f)
  case Nil
  then show ?case using assms by (cases rest) auto
next
  case (Cons c line)
  from Cons.prems have c: "c \<noteq> DQ" "c \<noteq> NL" and l: "DQ \<notin> set line" "NL \<notin> set line"
    by auto
  show ?case
  proof (cases "c = CHR '',''")
    case True
    then show ?thesis using Cons.IH [OF l, of "row @ [[]]"] Cons.IH [OF l, of "row @ [f]"]
      by (simp split: list.splits)
  next
    case False
    then show ?thesis using c Cons.IH [OF l, of row "[c]"] Cons.IH [OF l, of row "f @ [c]"]
      by (simp split: list.splits)
  qed
qed

lemma splitFields_join:
  "\<forall>h \<in> set (x # xs). CHR '','' \<notin> set h \<Longrightarrow>
     splitFields f (joinWith '','' (x # xs)) = (f @ x) # xs"
proof (induction xs arbitrary: f x)
  case Nil
  have "CHR '','' \<notin> set h \<Longrightarrow> splitFields g h = [g @ h]" for g h
    by (induction h arbitrary: g) auto
  with Nil show ?case by simp
next
  case (Cons y ys)
  have step: "CHR '','' \<notin> set h \<Longrightarrow> splitFields g (h @ CHR '','' # r) = (g @ h) # splitFields [] r"
    for g h r
    by (induction h arbitrary: g) auto
  from Cons.prems have "CHR '','' \<notin> set x" and "\<forall>h \<in> set (y # ys). CHR '','' \<notin> set h"
    by simp_all
  then show ?case using Cons.IH [of y "[]"] step [of x f "joinWith '','' (y # ys)"] by simp
qed

lemma joinWith_set:
  "c \<in> set (joinWith '','' hs) \<Longrightarrow> c = CHR '','' \<or> (\<exists>h \<in> set hs. c \<in> set h)"
  by (induction "'',''" hs rule: joinWith.induct) auto

text \<open>
  The way back, for records whose keys hold no double quote and no line feed: the rows
  under the header line read back as the texts of the cells, one row per record and one
  cell per column. The header line reads back as its pieces between commas, which are
  the column names when no key holds a comma.
\<close>

lemma csv_roundtrip:
  assumes run: "convertToCSV (JArr (first # rest)) = Inr out"
    and keys: "ownKeys first = Inr headers"
    and plain: "\<forall>h \<in> set headers. DQ \<notin> set h \<and> NL \<notin> set h"
  shows "\<exists>cells.
      readCSV lenient out = Some (splitFields [] (joinWith '','' (orderHeaders headers)) # cells)
      \<and> length cells = length (first # rest)
      \<and> (\<forall>i < length (first # rest).
            length (cells ! i) = length (orderHeaders headers)
            \<and> (\<forall>j < length (orderHeaders headers).
                  cellText ((first # rest) ! i) (orderHeaders headers ! j) = Inr (cells ! i ! j)))
      \<and> ((\<forall>h \<in> set headers. CHR '','' \<notin> set h)
           \<longrightarrow> splitFields [] (joinWith '','' (orderHeaders headers)) = orderHeaders headers)"
proof -
  let ?hs = "orderHeaders headers"
  let ?line = "joinWith '','' ?hs"
  from convertToCSV_Inr [OF run] keys obtain lines where
    l: "mapResult (csvRow ?hs) (first # rest) = Inr lines"
    and o: "out = joinWith [NL] (?line # lines)"
    by auto
  from l obtain cells where
    c: "mapResult (\<lambda>row. mapResult (cellText row) ?hs) (first # rest) = Inr cells"
    and lc: "lines = map renderRow cells"
    unfolding csvRows_cellText by (auto split: sum.splits)
  from mapResult_Inr [OF c] have
    len: "length cells = length (first # rest)"
    and each: "\<forall>i < length (first # rest).
        mapResult (cellText ((first # rest) ! i)) ?hs = Inr (cells ! i)"
    by blast+
  have cellwise: "\<forall>i < length (first # rest).
      length (cells ! i) = length ?hs
      \<and> (\<forall>j < length ?hs. cellText ((first # rest) ! i) (?hs ! j) = Inr (cells ! i ! j))"
    using each mapResult_Inr by blast
  have hplain: "\<forall>h \<in> set ?hs. DQ \<notin> set h \<and> NL \<notin> set h"
    using plain by (auto simp add: orderHeaders_def)
  have line: "DQ \<notin> set ?line" "NL \<notin> set ?line"
    using hplain joinWith_set [of DQ ?hs] joinWith_set [of NL ?hs] by auto
  have nonempty: "\<forall>r \<in> set cells. r \<noteq> []"
  proof
    fix r assume "r \<in> set cells"
    then obtain i where "i < length cells" "r = cells ! i"
      by (auto simp add: in_set_conv_nth)
    with cellwise len have "length r = length ?hs" by simp
    then show "r \<noteq> []" by (auto simp add: orderHeaders_def)
  qed
  from len have ne: "cells \<noteq> []" by auto
  have body: "csvScan lenient FieldStart [] [] (joinWith [NL] (map renderRow cells)) = Some cells"
    using scan_rows [OF ne nonempty, where lenient = lenient] .
  from ne obtain r rs where "cells = r # rs" by (cases cells) auto
  then have "out = ?line @ (NL # joinWith [NL] (map renderRow cells))"
    using o lc by simp
  then have "readCSV lenient out = Some (splitFields [] ?line # cells)"
    using scan_line [where rest = "NL # joinWith [NL] (map renderRow cells)" and line = ?line
        and row = "[]" and lenient = lenient, OF _ line] body
    by (simp add: readCSV_def)
  moreover have "splitFields [] ?line = ?hs" if "\<forall>h \<in> set headers. CHR '','' \<notin> set h"
  proof -
    from that have "\<forall>h \<in> set (''symbol'' # ''timestamp_iso''
        # filter (\<lambda>h. h \<noteq> ''symbol'' \<and> h \<noteq> ''timestamp_iso'') headers). CHR '','' \<notin> set h"
      by auto
    from splitFields_join [OF this, of "[]"] show ?thesis by (simp add: orderHeaders_def)
  qed
  ultimately show ?thesis using len cellwise by blast
qed

lemma comma_key_example:
  "convertToCSV (JArr [JObj [(''price, usd'', JNum 5)]])
     = Inr (''symbol,timestamp_iso,price, usd'' @ [NL] @ '',,5'')"
  "readCSV lenient (''symbol,timestamp_iso,price, usd'' @ [NL] @ '',,5'')
     = Some [[''symbol'', ''timestamp_iso'', ''price'', '' usd''], [[], [], ''5'']]"
  by (simp_all add: csv_eval readCSV_def)

text \<open>
  Claim C5 at a record whose key begins with a double quote. The names of the header
  line are joined without quoting, so a reader takes the third name for a quoted
  field, which runs over the line feed and the row of the record to the end of the
  document and is never closed. The strict reader rejects the document; the lenient
  reader reads a single row whose third cell holds the rest of the document. Neither
  reads the cell \<^verbatim>\<open>v\<close> of the record back.
\<close>

theorem roundtrip_failing_input:
  "convertToCSV (JArr [JObj [(DQ # ''k'', JStr ''v'')]])
     = Inr (''symbol,timestamp_iso,'' @ [DQ] @ ''k'' @ [NL] @ '',,v'')
   \<and> cellText (JObj [(DQ # ''k'', JStr ''v'')]) (DQ # ''k'') = Inr ''v''
   \<and> readCSV False (''symbol,timestamp_iso,'' @ [DQ] @ ''k'' @ [NL] @ '',,v'') = None
   \<and> readCSV True (''symbol,timestamp_iso,'' @ [DQ] @ ''k'' @ [NL] @ '',,v'')
     = Some [[''symbol'', ''timestamp_iso'', ''k'' @ [NL] @ '',,v'']]"
  by (simp add: csv_eval readCSV_def cellText_def cellValue_def)

section \<open>Reading digits and date strings\<close>

lemma digit_cases:
  fixes d :: nat
  shows "d mod 10 = 0 \<or> d mod 10 = 1 \<or> d mod 10 = 2 \<or> d mod 10 = 3 \<or> d mod 10 = 4
    \<or> d mod 10 = 5 \<or> d mod 10 = 6 \<or> d mod 10 = 7 \<or> d mod 10 = 8 \<or> d mod 10 = 9"
proof -
  have "d mod 10 < 10" by simp
  then show ?thesis by arith
qed

lemma digitVal_digitChar: "digitVal (digitChar d) = Some (d mod 10)"
  using digit_cases [of d] by (elim disjE) (simp_all add: digitVal_def digitChar_def)

lemma digitChar_not_mark:
  "digitChar d \<noteq> CHR ''+''" "digitChar d \<noteq> CHR ''-''"
  using digit_cases [of d] by (elim disjE; simp add: digitChar_def)+

lemma readAcc_fixedDigits:
  "readAcc (w + k) acc (fixedDigits w m @ s) = readAcc k (acc * 10 ^ w + m mod 10 ^ w) s"
proof (induction w arbitrary: m k s)
  case 0
  then show ?case by simp
next
  case (Suc w)
  have "readAcc (Suc w + k) acc (fixedDigits (Suc w) m @ s)
      = readAcc (w + Suc k) acc (fixedDigits w (m div 10) @ (digitChar m # s))"
    by simp
  also have "\<dots> = readAcc (Suc k) (acc * 10 ^ w + (m div 10) mod 10 ^ w) (digitChar m # s)"
    by (rule Suc.IH)
  also have "\<dots> = readAcc k (10 * (acc * 10 ^ w + (m div 10) mod 10 ^ w) + m mod 10) s"
    by (simp add: digitVal_digitChar)
  also have "10 * (acc * 10 ^ w + (m div 10) mod 10 ^ w) + m mod 10
      = acc * 10 ^ Suc w + m mod 10 ^ Suc w"
    by (simp add: mod_mult2_eq algebra_simps)
  finally show ?case .
qed

lemma readNum_fixedDigits:
  assumes "0 \<le> n" and "n < 10 ^ w"
  shows "readNum w (fixedDigits w (nat n) @ s) = Some (n, s)"
proof -
  have "nat n < 10 ^ w" using assms by (simp add: nat_less_iff)
  then show ?thesis
    using readAcc_fixedDigits [of w 0 0 "nat n" s] assms by (simp add: readNum_def)
qed


lemma fixedDigits_2: "fixedDigits 2 n = [digitChar (n div 10), digitChar n]"
proof -
  have "(2::nat) = Suc (Suc 0)" by simp
  then show ?thesis by (simp only: fixedDigits.simps append_Nil append_Cons)
qed

lemma fixedDigits_3:
  "fixedDigits 3 n = [digitChar (n div 100), digitChar (n div 10), digitChar n]"
proof -
  have "(3::nat) = Suc 2" by simp
  then have "fixedDigits 3 n = fixedDigits 2 (n div 10) @ [digitChar n]"
    by (simp only: fixedDigits.simps)
  then show ?thesis by (simp add: fixedDigits_2 div_mult2_eq [symmetric])
qed

lemma fixedDigits_4:
  "fixedDigits 4 n =
     [digitChar (n div 1000), digitChar (n div 100), digitChar (n div 10), digitChar n]"
proof -
  have "(4::nat) = Suc 3" by simp
  then have "fixedDigits 4 n = fixedDigits 3 (n div 10) @ [digitChar n]"
    by (simp only: fixedDigits.simps)
  then show ?thesis by (simp add: fixedDigits_3 div_mult2_eq [symmetric])
qed

lemma readAcc_step:
  "0 < w \<Longrightarrow> readAcc w acc (c # cs) =
     (case digitVal c of None \<Rightarrow> None | Some d \<Rightarrow> readAcc (w - 1) (10 * acc + d) cs)"
  by (cases w) (simp_all split: option.splits)

lemma readYear_plain:
  assumes "0 \<le> y" and "y \<le> 9999"
  shows "readYear (fixedDigits 4 (nat y) @ s) = Some (y, s)"
proof -
  have "readNum 4 (fixedDigits 4 (nat y) @ s) = Some (y, s)"
    using assms by (intro readNum_fixedDigits) simp_all
  then show ?thesis
    by (simp add: readYear_def fixedDigits_4 digitChar_not_mark)
qed

lemma month_cases:
  fixes m :: int
  assumes "1 \<le> m" and "m \<le> 12"
  shows "m = 1 \<or> m = 2 \<or> m = 3 \<or> m = 4 \<or> m = 5 \<or> m = 6 \<or> m = 7 \<or> m = 8 \<or> m = 9
    \<or> m = 10 \<or> m = 11 \<or> m = 12"
  using assms by arith

lemma DaysInMonth_le:
  assumes "1 \<le> m" and "m \<le> 12"
  shows "DaysInMonth y m \<le> 31"
  using month_cases [OF assms]
  by (elim disjE) (simp_all add: DaysInMonth_def monthStart_def)

lemmas parse_eval = expect_def readFraction_def readZone_def readNum_def readAcc_step
  digitVal_def

lemma parse_start:
  assumes "calendarDay y m d"
  shows "parseDateTime (dateInputValue y m d @ ''T00:00:00'') = Some (localMidnight y m d, False)"
proof -
  from assms have b: "0 \<le> y" "y \<le> 9999" "0 \<le> m" "m < 10 ^ 2" "0 \<le> d" "d < 10 ^ 2"
    and v: "validFields y m d 0 0 0 0"
    using DaysInMonth_le [of m y] by (simp_all add: calendarDay_def validFields_def)
  have y: "\<And>s. readYear (fixedDigits 4 (nat y) @ s) = Some (y, s)"
    using b by (simp add: readYear_plain)
  have mm: "\<And>s. readNum 2 (fixedDigits 2 (nat m) @ s) = Some (m, s)"
    using b by (intro readNum_fixedDigits)
  have dd: "\<And>s. readNum 2 (fixedDigits 2 (nat d) @ s) = Some (d, s)"
    using b by (intro readNum_fixedDigits)
  have t: "readNum 2 ''00:00:00'' = Some (0, '':00:00'')" "readNum 2 ''00:00'' = Some (0, '':00'')"
    "readNum 2 ''00'' = Some (0, [])"
    by (simp_all add: parse_eval)
  show ?thesis
    using v by (simp add: parseDateTime_def dateInputValue_def y mm dd t expect_def
        readFraction_def readZone_def localMidnight_def MakeTime_def)
qed

lemma parse_end:
  assumes "calendarDay y m d"
  shows "parseDateTime (dateInputValue y m d @ ''T23:59:59.999'')
    = Some (localMidnight y m d + 86399999, False)"
proof -
  from assms have b: "0 \<le> y" "y \<le> 9999" "0 \<le> m" "m < 10 ^ 2" "0 \<le> d" "d < 10 ^ 2"
    and v: "validFields y m d 23 59 59 999"
    using DaysInMonth_le [of m y] by (simp_all add: calendarDay_def validFields_def)
  have y: "\<And>s. readYear (fixedDigits 4 (nat y) @ s) = Some (y, s)"
    using b by (simp add: readYear_plain)
  have mm: "\<And>s. readNum 2 (fixedDigits 2 (nat m) @ s) = Some (m, s)"
    using b by (intro readNum_fixedDigits)
  have dd: "\<And>s. readNum 2 (fixedDigits 2 (nat d) @ s) = Some (d, s)"
    using b by (intro readNum_fixedDigits)
  have t: "readNum 2 ''23:59:59.999'' = Some (23, '':59:59.999'')"
    "readNum 2 ''59:59.999'' = Some (59, '':59.999'')"
    "readNum 2 ''59.999'' = Some (59, ''.999'')"
    "readNum 3 ''999'' = Some (999, [])"
    by (simp_all add: parse_eval)
  show ?thesis
    using v by (simp add: parseDateTime_def dateInputValue_def y mm dd t expect_def
        readFraction_def readZone_def localMidnight_def MakeTime_def MakeDate_def
        msPerHour_def msPerMinute_def msPerSecond_def)
qed


lemma DayFromYear_range:
  assumes "0 \<le> y" and "y \<le> 9999"
  shows "- 719528 \<le> DayFromYear y" and "DayFromYear y \<le> 2932532"
proof -
  have a: "(0 - 1969) div 4 \<le> (y - 1969) div 4" "(y - 1969) div 4 \<le> (9999 - 1969) div 4"
    using assms by (intro zdiv_mono1; simp)+
  have b: "(0 - 1901) div 100 \<le> (y - 1901) div 100"
    "(y - 1901) div 100 \<le> (9999 - 1901) div 100"
    using assms by (intro zdiv_mono1; simp)+
  have c: "(0 - 1601) div 400 \<le> (y - 1601) div 400"
    "(y - 1601) div 400 \<le> (9999 - 1601) div 400"
    using assms by (intro zdiv_mono1; simp)+
  show "- 719528 \<le> DayFromYear y" "DayFromYear y \<le> 2932532"
    using a b c assms unfolding DayFromYear_def by simp_all
qed

lemma localMidnight_range:
  assumes "calendarDay y m d"
  shows "\<bar>localMidnight y m d\<bar> \<le> 300000000000000"
proof -
  from assms have m: "1 \<le> m" "m \<le> 12" and d: "1 \<le> d" "d \<le> 31"
    and y: "0 \<le> y" "y \<le> 9999"
    using DaysInMonth_le [of m y] by (simp_all add: calendarDay_def)
  have s: "0 \<le> monthStart l (m - 1) \<and> monthStart l (m - 1) \<le> 335" if "l = 0 \<or> l = 1" for l
    using month_cases [OF m] that by (elim disjE) (simp_all add: monthStart_def)
  have "- 719528 \<le> MakeDay y (m - 1) d \<and> MakeDay y (m - 1) d \<le> 2932532 + 335 + 31"
    using DayFromYear_range [OF y] d s [of 0] s [of 1]
    by (simp add: MakeDay_def)
  then show ?thesis unfolding localMidnight_def MakeDate_def msPerDay_def by linarith
qed

lemma day_timestamps:
  assumes day: "calendarDay year month date"
    and zone: "steadyZone z (localMidnight year month date)"
  shows "epochSeconds z (dateInputValue year month date @ ''T00:00:00'')
        = Inr (Some (epochSecond z (localMidnight year month date)))"
    and "epochSeconds z (dateInputValue year month date @ ''T23:59:59.999'')
        = Inr (Some (epochSecond z (localMidnight year month date + 86399999)))"
    and "epochSecond z (localMidnight year month date)
        < epochSecond z (localMidnight year month date + 86399999)"
proof -
  let ?L = "localMidnight year month date"
  from zone have z0: "\<bar>z ?L\<bar> \<le> 86400000" and z1: "\<bar>z (?L + 86399999)\<bar> \<le> 86400000"
    and dz: "z (?L + 86399999) - z ?L \<le> 86398999"
    by (simp_all add: steadyZone_def msPerDay_def)
  from localMidnight_range [OF day] have r: "\<bar>?L\<bar> \<le> 300000000000000" .
  show "epochSeconds z (dateInputValue year month date @ ''T00:00:00'')
      = Inr (Some (epochSecond z ?L))"
    using r z0
    by (simp add: epochSeconds_def newDateFromString_def parse_start [OF day] TimeClip_of_int
        epochSecond_def)
  show "epochSeconds z (dateInputValue year month date @ ''T23:59:59.999'')
      = Inr (Some (epochSecond z (?L + 86399999)))"
    using r z1
    by (simp add: epochSeconds_def newDateFromString_def parse_end [OF day] TimeClip_of_int
        epochSecond_def)
  have "(?L - z ?L) div 1000 + 1 = (?L - z ?L + 1000) div 1000" by simp
  also have "\<dots> \<le> (?L + 86399999 - z (?L + 86399999)) div 1000"
    using dz by (intro zdiv_mono1) simp_all
  finally show "epochSecond z ?L < epochSecond z (?L + 86399999)"
    by (simp add: epochSecond_def)
qed

lemma requestAndExport_first:
  "requestAndExport env form = Some (Inr events) \<Longrightarrow> \<exists>rest. events = SetDisabled True # rest"
  by (auto simp add: requestAndExport_def split: option.splits sum.splits error.splits prod.splits)

lemma dateInputValue_filled: "dateInputValue year month date \<noteq> []"
  by (simp add: dateInputValue_def)

text \<open>
  Claim C8. When the form is filled in and its start date and end date are the same
  calendar day, in a zone that is steady over that day, the \<^verbatim>\<open>from\<close> timestamp that
  \<open>fetchAndDownload\<close> computes is the epoch second of the local midnight that starts
  the day, the \<^verbatim>\<open>to\<close> timestamp is the epoch second of 23:59:59.999 local time on that
  day, the first is strictly less than the second, the range test does not reject
  them, and the function goes on to the request instead of reporting an invalid date
  range.
\<close>

theorem same_day_range:
  assumes day: "calendarDay year month date"
    and zone: "steadyZone (tza env) (localMidnight year month date)"
    and start: "startDateStr form = dateInputValue year month date"
    and stop: "endDateStr form = dateInputValue year month date"
    and filled: "apiKey form \<noteq> []" "symbols form \<noteq> []"
  shows "fromTimestamp env form
        = Inr (Some (epochSecond (tza env) (localMidnight year month date)))
    \<and> toTimestamp env form
        = Inr (Some (epochSecond (tza env) (localMidnight year month date + 86399999)))
    \<and> epochSecond (tza env) (localMidnight year month date)
        < epochSecond (tza env) (localMidnight year month date + 86399999)
    \<and> \<not> invalidRange (Some (epochSecond (tza env) (localMidnight year month date)))
            (Some (epochSecond (tza env) (localMidnight year month date + 86399999)))
    \<and> fetchAndDownload env form = requestAndExport env form
    \<and> fetchAndDownload env form \<noteq> Some (Inr [Status ''Invalid date range selected.'' ''error''])"
proof -
  let ?f = "epochSecond (tza env) (localMidnight year month date)"
  let ?t = "epochSecond (tza env) (localMidnight year month date + 86399999)"
  from day_timestamps [OF day zone] have
    f: "fromTimestamp env form = Inr (Some ?f)"
    and t: "toTimestamp env form = Inr (Some ?t)"
    and lt: "?f < ?t"
    by (simp_all add: fromTimestamp_def toTimestamp_def start stop)
  from lt have valid: "\<not> invalidRange (Some ?f) (Some ?t)" by (simp add: invalidRange_def)
  have run: "fetchAndDownload env form = requestAndExport env form"
    using f t valid filled dateInputValue_filled [of year month date]
    by (simp add: fetchAndDownload_def start stop)
  have "requestAndExport env form \<noteq> Some (Inr [Status ''Invalid date range selected.'' ''error''])"
    using requestAndExport_first [of env form] by auto
  with f t lt valid run show ?thesis by simp
qed

theorem same_day_range_witness:
  "fromTimestamp
     \<lparr>tza = (\<lambda>t. 3600000), fetched = None, downloadSupported = True,
      errorMessage = (\<lambda>e. ''TypeError'')\<rparr>
     \<lparr>apiKey = ''key'', symbols = ''BTCUSD'', interval = ''1hour'',
      startDateStr = ''2024-01-01'', endDateStr = ''2024-01-01'', convertToUsd = False\<rparr>
     = Inr (Some 1704063600)
   \<and> toTimestamp
     \<lparr>tza = (\<lambda>t. 3600000), fetched = None, downloadSupported = True,
      errorMessage = (\<lambda>e. ''TypeError'')\<rparr>
     \<lparr>apiKey = ''key'', symbols = ''BTCUSD'', interval = ''1hour'',
      startDateStr = ''2024-01-01'', endDateStr = ''2024-01-01'', convertToUsd = False\<rparr>
     = Inr (Some 1704149999)
   \<and> fetchAndDownload
     \<lparr>tza = (\<lambda>t. 3600000), fetched = None, downloadSupported = True,
      errorMessage = (\<lambda>e. ''TypeError'')\<rparr>
     \<lparr>apiKey = ''key'', symbols = ''BTCUSD'', interval = ''1hour'',
      startDateStr = ''2024-01-01'', endDateStr = ''2024-01-01'', convertToUsd = False\<rparr>
     = requestAndExport
     \<lparr>tza = (\<lambda>t. 3600000), fetched = None, downloadSupported = True,
      errorMessage = (\<lambda>e. ''TypeError'')\<rparr>
     \<lparr>apiKey = ''key'', symbols = ''BTCUSD'', interval = ''1hour'',
      startDateStr = ''2024-01-01'', endDateStr = ''2024-01-01'', convertToUsd = False\<rparr>"
proof -
  let ?env = "\<lparr>tza = (\<lambda>t. 3600000), fetched = None, downloadSupported = True,
         errorMessage = (\<lambda>e. ''TypeError'')\<rparr>"
  let ?form = "\<lparr>apiKey = ''key'', symbols = ''BTCUSD'', interval = ''1hour'',
         startDateStr = ''2024-01-01'', endDateStr = ''2024-01-01'', convertToUsd = False\<rparr>"
  have d: "calendarDay 2024 1 1"
    by (simp add: calendarDay_def DaysInMonth_def monthStart_def)
  have z: "steadyZone (tza ?env) (localMidnight 2024 1 1)"
    by (simp add: steadyZone_def msPerDay_def)
  have s: "dateInputValue 2024 1 1 = ''2024-01-01''"
    by (simp add: dateInputValue_def fixedDigits_4 fixedDigits_2 digitChar_def)
  have a: "startDateStr ?form = dateInputValue 2024 1 1" "endDateStr ?form = dateInputValue 2024 1 1"
    "apiKey ?form \<noteq> []" "symbols ?form \<noteq> []"
    by (simp_all add: s)
  have m: "localMidnight 2024 1 1 = 1704067200000"
    by (simp add: localMidnight_def MakeDate_def MakeDay_def DayFromYear_def DaysInYear_def
        monthStart_def msPerDay_def)
  have e: "epochSecond (tza ?env) (localMidnight 2024 1 1) = 1704063600"
    "epochSecond (tza ?env) (localMidnight 2024 1 1 + 86399999) = 1704149999"
    by (simp_all add: epochSecond_def m)
  from same_day_range [OF d z a] show ?thesis unfolding e by blast
qed

section \<open>The fetch control\<close>

lemma buttonWrites_simps [simp]:
  "buttonWrites [] = []"
  "buttonWrites (SetDisabled b # es) = b # buttonWrites es"
  "buttonWrites (Status m t # es) = buttonWrites es"
  "buttonWrites (Download f c # es) = buttonWrites es"
  "buttonWrites (Alert m # es) = buttonWrites es"
  "buttonWrites (xs @ ys) = buttonWrites xs @ buttonWrites ys"
  by (simp_all add: buttonWrites_def)








section \<open>Dates: fields of a time value and the way back\<close>

lemma div_bounds:
  fixes a k :: int
  assumes "0 < k"
  shows "k * (a div k) \<le> a" and "a < k * (a div k) + k"
proof -
  have "a = k * (a div k) + a mod k" by simp
  moreover have "0 \<le> a mod k" "a mod k < k" using assms by simp_all
  ultimately show "k * (a div k) \<le> a" "a < k * (a div k) + k" by linarith+
qed

lemma yearSearch_bounds:
  "DayFromYear (yearSearch y d) \<le> d \<and> d < DayFromYear (yearSearch y d + 1)"
proof (induction y d rule: yearSearch.induct)
  case (1 y d)
  then show ?case by (subst (1 2) yearSearch.simps) auto
qed

lemma YearFromTime_bounds:
  "DayFromYear (YearFromTime t) \<le> Day t" "Day t < DayFromYear (YearFromTime t + 1)"
  using yearSearch_bounds [of "1970 + (400 * Day t) div 146097" "Day t"]
  by (simp_all add: YearFromTime_def)

lemma DayFromYear_mono: "a \<le> b \<Longrightarrow> DayFromYear a \<le> DayFromYear b"
proof (induction b rule: int_ge_induct)
  case base
  then show ?case by simp
next
  case (step i)
  then show ?case using DayFromYear_Suc [of i] DaysInYear_cases [of i] by auto
qed

text \<open>\<open>YearFromTime t\<close> is the largest year \<open>y\<close> with \<open>TimeFromYear y \<le> t\<close>.\<close>

lemma YearFromTime_largest:
  "TimeFromYear (YearFromTime t) \<le> t" "TimeFromYear y \<le> t \<Longrightarrow> y \<le> YearFromTime t"
proof -
  have d: "86400000 * (t div 86400000) \<le> t" "t < 86400000 * (t div 86400000) + 86400000"
    by (rule div_bounds; simp)+
  from YearFromTime_bounds(1) [of t] have "86400000 * DayFromYear (YearFromTime t)
      \<le> 86400000 * (t div 86400000)"
    by (simp add: Day_def msPerDay_def)
  with d show "TimeFromYear (YearFromTime t) \<le> t"
    by (simp add: TimeFromYear_def msPerDay_def)
  assume le: "TimeFromYear y \<le> t"
  show "y \<le> YearFromTime t"
  proof (rule ccontr)
    assume "\<not> y \<le> YearFromTime t"
    then have "YearFromTime t + 1 \<le> y" by simp
    from DayFromYear_mono [OF this] YearFromTime_bounds(2) [of t]
    have "t div 86400000 + 1 \<le> DayFromYear y" by (simp add: Day_def msPerDay_def)
    then have "86400000 * (t div 86400000 + 1) \<le> 86400000 * DayFromYear y" by simp
    with d le show False by (simp add: TimeFromYear_def msPerDay_def algebra_simps)
  qed
qed

lemma DayWithinYear_range:
  "0 \<le> DayWithinYear t" "DayWithinYear t < 365 + InLeapYear t"
  using YearFromTime_bounds [of t] DaysInYear_cases [of "YearFromTime t"]
  by (auto simp add: DayWithinYear_def InLeapYear_def DayFromYear_Suc)

lemma InLeapYear_cases: "InLeapYear t = 0 \<or> InLeapYear t = 1"
  by (simp add: InLeapYear_def)

lemma MonthFromTime_monthOfDay: "MonthFromTime t = monthOfDay (InLeapYear t) (DayWithinYear t)"
  by (simp add: MonthFromTime_def)

lemma monthOfDay_range:
  assumes "leap = 0 \<or> leap = 1" and "0 \<le> d" and "d < 365 + leap"
  shows "0 \<le> monthOfDay leap d \<and> monthOfDay leap d \<le> 11
     \<and> monthStart leap (monthOfDay leap d) \<le> d
     \<and> d < monthStart leap (monthOfDay leap d + 1)"
proof -
  have pick: "\<And>k. monthOfDay leap d = k \<Longrightarrow> 0 \<le> k \<Longrightarrow> k \<le> 11
      \<Longrightarrow> monthStart leap k \<le> d \<Longrightarrow> d < monthStart leap (k + 1) \<Longrightarrow> ?thesis"
    by simp
  show ?thesis
  proof (cases "d < 151 + leap")
    case lo: True
    show ?thesis
    proof (cases "d < 59 + leap")
      case True
      show ?thesis
      proof (cases "d < 31")
        case True
        then show ?thesis using assms by (intro pick [of 0]) (auto simp add: monthOfDay_def monthStart_def)
      next
        case False
        then show ?thesis using True assms
          by (intro pick [of 1]) (auto simp add: monthOfDay_def monthStart_def)
      qed
    next
      case a: False
      show ?thesis
      proof (cases "d < 90 + leap")
        case True
        then show ?thesis using a assms
          by (intro pick [of 2]) (auto simp add: monthOfDay_def monthStart_def)
      next
        case b: False
        show ?thesis
        proof (cases "d < 120 + leap")
          case True
          then show ?thesis using a b assms
            by (intro pick [of 3]) (auto simp add: monthOfDay_def monthStart_def)
        next
          case False
          then show ?thesis using a b lo assms
            by (intro pick [of 4]) (auto simp add: monthOfDay_def monthStart_def)
        qed
      qed
    qed
  next
    case hi: False
    show ?thesis
    proof (cases "d < 243 + leap")
      case True
      show ?thesis
      proof (cases "d < 181 + leap")
        case True
        then show ?thesis using hi assms
          by (intro pick [of 5]) (auto simp add: monthOfDay_def monthStart_def)
      next
        case a: False
        show ?thesis
        proof (cases "d < 212 + leap")
          case True
          then show ?thesis using hi a assms
            by (intro pick [of 6]) (auto simp add: monthOfDay_def monthStart_def)
        next
          case False
          then show ?thesis using hi a True assms
            by (intro pick [of 7]) (auto simp add: monthOfDay_def monthStart_def)
        qed
      qed
    next
      case c: False
      show ?thesis
      proof (cases "d < 304 + leap")
        case True
        show ?thesis
        proof (cases "d < 273 + leap")
          case True
          then show ?thesis using hi c assms
            by (intro pick [of 8]) (auto simp add: monthOfDay_def monthStart_def)
        next
          case False
          then show ?thesis using hi c True assms
            by (intro pick [of 9]) (auto simp add: monthOfDay_def monthStart_def)
        qed
      next
        case e: False
        show ?thesis
        proof (cases "d < 334 + leap")
          case True
          then show ?thesis using hi c e assms
            by (intro pick [of 10]) (auto simp add: monthOfDay_def monthStart_def)
        next
          case False
          then show ?thesis using hi c e assms
            by (intro pick [of 11]) (auto simp add: monthOfDay_def monthStart_def)
        qed
      qed
    qed
  qed
qed

lemma month_date_range:
  "0 \<le> MonthFromTime t" "MonthFromTime t \<le> 11"
  "1 \<le> DateFromTime t"
  "DateFromTime t \<le> monthStart (InLeapYear t) (MonthFromTime t + 1)
                      - monthStart (InLeapYear t) (MonthFromTime t)"
  using monthOfDay_range [OF InLeapYear_cases DayWithinYear_range, of t]
  by (simp_all add: MonthFromTime_monthOfDay DateFromTime_def)

lemma time_fields:
  "MakeTime (HourFromTime t) (MinFromTime t) (SecFromTime t) (msFromTime t) = TimeWithinDay t"
proof -
  have s: "t mod 60000 = 1000 * (t div 1000 mod 60) + t mod 1000"
    using zmod_zmult2_eq [of 60 t 1000] by simp
  have m: "t mod 3600000 = 60000 * (t div 60000 mod 60) + t mod 60000"
    using zmod_zmult2_eq [of 60 t 60000] by simp
  have h: "t mod 86400000 = 3600000 * (t div 3600000 mod 24) + t mod 3600000"
    using zmod_zmult2_eq [of 24 t 3600000] by simp
  have lin: "\<And>a b c d :: int.
      a * 3600000 + b * 60000 + c * 1000 + d = 3600000 * a + (60000 * b + (1000 * c + d))"
    by simp
  have "MakeTime (HourFromTime t) (MinFromTime t) (SecFromTime t) (msFromTime t)
      = (t div 3600000 mod 24) * 3600000 + (t div 60000 mod 60) * 60000
        + (t div 1000 mod 60) * 1000 + t mod 1000"
    by (simp only: MakeTime_def HourFromTime_def MinFromTime_def SecFromTime_def msFromTime_def
        msPerHour_def msPerMinute_def msPerSecond_def)
  also have "\<dots> = 3600000 * (t div 3600000 mod 24)
      + (60000 * (t div 60000 mod 60) + (1000 * (t div 1000 mod 60) + t mod 1000))"
    by (rule lin)
  also have "\<dots> = t mod 86400000"
    by (simp only: h m s)
  finally show ?thesis by (simp only: TimeWithinDay_def msPerDay_def)
qed

lemma time_field_ranges:
  "0 \<le> HourFromTime t" "HourFromTime t \<le> 23" "0 \<le> MinFromTime t" "MinFromTime t \<le> 59"
  "0 \<le> SecFromTime t" "SecFromTime t \<le> 59" "0 \<le> msFromTime t" "msFromTime t \<le> 999"
proof -
  have "HourFromTime t < 24" "MinFromTime t < 60" "SecFromTime t < 60" "msFromTime t < 1000"
    by (simp_all add: HourFromTime_def MinFromTime_def SecFromTime_def msFromTime_def
        msPerSecond_def)
  then show "HourFromTime t \<le> 23" "MinFromTime t \<le> 59" "SecFromTime t \<le> 59"
    "msFromTime t \<le> 999"
    by simp_all
  show "0 \<le> HourFromTime t" "0 \<le> MinFromTime t" "0 \<le> SecFromTime t" "0 \<le> msFromTime t"
    by (simp_all add: HourFromTime_def MinFromTime_def SecFromTime_def msFromTime_def
        msPerSecond_def)
qed

lemma date_roundtrip:
  "MakeDate (MakeDay (YearFromTime t) (MonthFromTime t) (DateFromTime t))
     (MakeTime (HourFromTime t) (MinFromTime t) (SecFromTime t) (msFromTime t)) = t"
proof -
  have "MakeDay (YearFromTime t) (MonthFromTime t) (DateFromTime t) = Day t"
    by (simp add: MakeDay_def DateFromTime_def DayWithinYear_def InLeapYear_def)
  then show ?thesis
    by (simp add: time_fields MakeDate_def Day_def TimeWithinDay_def)
qed


lemma DayFromYear_linear:
  "146097 * y - 287811596 \<le> 400 * DayFromYear y"
  "400 * DayFromYear y \<le> 146097 * y - 287810501"
proof -
  define a where "a = (y - 1969) div 4"
  define b where "b = (y - 1901) div 100"
  define c where "c = (y - 1601) div 400"
  have a: "4 * a \<le> y - 1969" "y - 1969 < 4 * a + 4"
    unfolding a_def by (rule div_bounds; simp)+
  have b: "100 * b \<le> y - 1901" "y - 1901 < 100 * b + 100"
    unfolding b_def by (rule div_bounds; simp)+
  have c: "400 * c \<le> y - 1601" "y - 1601 < 400 * c + 400"
    unfolding c_def by (rule div_bounds; simp)+
  have d: "DayFromYear y = 365 * (y - 1970) + a - b + c"
    by (simp only: DayFromYear_def a_def b_def c_def)
  have e: "400 * DayFromYear y = 146000 * y - 287620000 + 400 * a - 400 * b + 400 * c"
    unfolding d by simp
  show "146097 * y - 287811596 \<le> 400 * DayFromYear y"
    using a b c unfolding e by linarith
  show "400 * DayFromYear y \<le> 146097 * y - 287810501"
    using a b c unfolding e by linarith
qed

lemma YearFromTime_range:
  assumes "\<bar>t\<bar> \<le> 8640000000000000"
  shows "- 999999 \<le> YearFromTime t" and "YearFromTime t \<le> 999999"
proof -
  have "(- 8640000000000000) div 86400000 \<le> t div 86400000"
    using assms by (intro zdiv_mono1) simp_all
  moreover have "t div 86400000 \<le> 8640000000000000 div 86400000"
    using assms by (intro zdiv_mono1) simp_all
  ultimately have d: "- 100000000 \<le> Day t" "Day t \<le> 100000000"
    by (simp_all add: Day_def msPerDay_def)
  have up: "400 * DayFromYear (YearFromTime t + 1) \<le> 146097 * YearFromTime t - 287664404"
    using DayFromYear_linear(2) [of "YearFromTime t + 1"] by simp
  from YearFromTime_bounds [of t] DayFromYear_linear(1) [of "YearFromTime t"] up d
  show "- 999999 \<le> YearFromTime t" "YearFromTime t \<le> 999999"
    by linarith+
qed

lemma fixedDigits_6:
  "fixedDigits 6 n =
     [digitChar (n div 100000), digitChar (n div 10000), digitChar (n div 1000),
      digitChar (n div 100), digitChar (n div 10), digitChar n]"
proof -
  have "(6::nat) = Suc (Suc 4)" by simp
  then have "fixedDigits 6 n
      = (fixedDigits 4 (n div 10 div 10) @ [digitChar (n div 10)]) @ [digitChar n]"
    by (simp only: fixedDigits.simps)
  then show ?thesis by (simp add: fixedDigits_4 div_mult2_eq [symmetric])
qed

lemma readYear_isoYear:
  assumes "- 999999 \<le> y" and "y \<le> 999999"
  shows "readYear (isoYear y @ s) = Some (y, s)"
proof -
  consider "0 \<le> y" "y \<le> 9999" | "9999 < y" | "y < 0" by linarith
  then show ?thesis
  proof cases
    case 1
    then show ?thesis by (simp add: isoYear_def readYear_plain)
  next
    case 2
    then have "readNum 6 (fixedDigits 6 (nat \<bar>y\<bar>) @ s) = Some (\<bar>y\<bar>, s)"
      using assms by (intro readNum_fixedDigits) simp_all
    with 2 show ?thesis by (simp add: isoYear_def readYear_def)
  next
    case 3
    then have "readNum 6 (fixedDigits 6 (nat \<bar>y\<bar>) @ s) = Some (\<bar>y\<bar>, s)"
      using assms by (intro readNum_fixedDigits) simp_all
    with 3 show ?thesis by (simp add: isoYear_def readYear_def)
  qed
qed

lemma iso_roundtrip:
  assumes "\<bar>t\<bar> \<le> 8640000000000000"
  shows "parseDateTime (isoString t) = Some (t, True)"
proof -
  let ?y = "YearFromTime t" and ?m = "MonthFromTime t" and ?d = "DateFromTime t"
  let ?h = "HourFromTime t" and ?mi = "MinFromTime t" and ?s = "SecFromTime t"
  let ?ms = "msFromTime t"
  note mr = month_date_range [of t] and tr = time_field_ranges [of t]
  have leap: "(if DaysInYear ?y = 366 then 1 else 0) = InLeapYear t"
    by (simp add: InLeapYear_def)
  have dim: "?d \<le> DaysInMonth ?y (?m + 1)"
    using mr by (simp add: DaysInMonth_def leap Let_def)
  have d31: "?d \<le> 31"
    using dim DaysInMonth_le [of "?m + 1" ?y] mr by simp
  have v: "validFields ?y (?m + 1) ?d ?h ?mi ?s ?ms"
    using mr tr dim by (simp add: validFields_def)
  have y: "\<And>s. readYear (isoYear ?y @ s) = Some (?y, s)"
    using YearFromTime_range [OF assms] by (simp add: readYear_isoYear)
  have mo: "\<And>s. readNum 2 (fixedDigits 2 (nat (?m + 1)) @ s) = Some (?m + 1, s)"
    using mr by (intro readNum_fixedDigits) simp_all
  have dd: "\<And>s. readNum 2 (fixedDigits 2 (nat ?d) @ s) = Some (?d, s)"
    using mr d31 by (intro readNum_fixedDigits) simp_all
  have hh: "\<And>s. readNum 2 (fixedDigits 2 (nat ?h) @ s) = Some (?h, s)"
    using tr by (intro readNum_fixedDigits) simp_all
  have mm: "\<And>s. readNum 2 (fixedDigits 2 (nat ?mi) @ s) = Some (?mi, s)"
    using tr by (intro readNum_fixedDigits) simp_all
  have ss: "\<And>s. readNum 2 (fixedDigits 2 (nat ?s) @ s) = Some (?s, s)"
    using tr by (intro readNum_fixedDigits) simp_all
  have ms: "\<And>s. readNum 3 (fixedDigits 3 (nat ?ms) @ s) = Some (?ms, s)"
    using tr by (intro readNum_fixedDigits) simp_all
  have "parseDateTime (isoString t)
      = Some (MakeDate (MakeDay ?y (?m + 1 - 1) ?d) (MakeTime ?h ?mi ?s ?ms), True)"
    using v by (simp add: parseDateTime_def isoString_def y mo dd hh mm ss ms expect_def
        readFraction_def readZone_def)
  then show ?thesis using date_roundtrip [of t] by simp
qed

section \<open>The timestamp of a flattened record\<close>

lemma mapResult_append:
  "mapResult f xs = Inr a \<Longrightarrow> mapResult f ys = Inr b \<Longrightarrow> mapResult f (xs @ ys) = Inr (a @ b)"
  by (induction xs arbitrary: a) (auto split: sum.splits)

lemma mapResult_Pair:
  "mapResult (\<lambda>(s, e). stampEntry s e) (map (Pair symbol) es) = mapResult (stampEntry symbol) es"
  by (induction es) (simp_all split: sum.splits)

lemma stampAll_map:
  "stampAll symbol es allData = Inr r \<Longrightarrow>
     \<exists>rs. r = allData @ rs \<and> mapResult (stampEntry symbol) es = Inr rs"
proof (induction es arbitrary: allData)
  case Nil
  then show ?case by simp
next
  case (Cons e es)
  then show ?case by (fastforce split: sum.splits)
qed

lemma flattenAll_map:
  "flattenAll xs allData = Inr r \<Longrightarrow>
     \<exists>rs. r = allData @ rs \<and> mapResult (\<lambda>(s, e). stampEntry s e) (flatItems xs) = Inr rs"
proof (induction xs arbitrary: allData)
  case Nil
  then show ?case by (simp add: flatItems_def)
next
  case (Cons x xs)
  show ?case
  proof (cases "validEntry x")
    case False
    with Cons.prems have "flattenAll xs allData = Inr r"
      using skip_iff_not_valid [of x] by simp
    from Cons.IH [OF this] False show ?thesis by (simp add: flatItems_def)
  next
    case True
    then have noskip: "\<not> (\<not> truthy x \<or> \<not> truthy (getField x ''symbol'')
        \<or> \<not> isArray (getField x ''history''))"
      using skip_iff_not_valid [of x] by simp
    from Cons.prems noskip obtain mid where
      mid: "stampAll (getField x ''symbol'') (elems (getField x ''history'')) allData = Inr mid"
      and rest: "flattenAll xs mid = Inr r"
      by (auto split: sum.splits)
    from stampAll_map [OF mid] obtain rs1 where
      m1: "mid = allData @ rs1"
      and s1: "mapResult (stampEntry (getField x ''symbol'')) (elems (getField x ''history''))
          = Inr rs1"
      by blast
    from Cons.IH [OF rest] obtain rs2 where
      m2: "r = mid @ rs2"
      and s2: "mapResult (\<lambda>(s, e). stampEntry s e) (flatItems xs) = Inr rs2"
      by blast
    have f: "flatItems (x # xs)
        = map (Pair (getField x ''symbol'')) (elems (getField x ''history'')) @ flatItems xs"
      using True by (simp add: flatItems_def)
    have "mapResult (\<lambda>(s, e). stampEntry s e) (flatItems (x # xs)) = Inr (rs1 @ rs2)"
      unfolding f using s1 s2 by (intro mapResult_append) (simp_all add: mapResult_Pair)
    with m1 m2 show ?thesis by simp
  qed
qed

lemma stampEntry_object:
  assumes "stampEntry symbol (JObj kvs) = Inr r"
  shows "getOwn kvs ''t'' = JNum q \<Longrightarrow> q \<noteq> 0 \<Longrightarrow>
      getField r ''timestamp_iso'' = JStr (isoString (wholePart q)) \<and> \<bar>q\<bar> \<le> 8640000000000000"
    and "map_of kvs ''t'' = None \<or> getOwn kvs ''t'' = JNum 0 \<Longrightarrow>
      getField r ''timestamp_iso'' = getOwn kvs ''timestamp_iso''"
proof -
  assume "getOwn kvs ''t'' = JNum q" "q \<noteq> 0"
  with assms
  show "getField r ''timestamp_iso'' = JStr (isoString (wholePart q)) \<and> \<bar>q\<bar> \<le> 8640000000000000"
    by (auto simp add: getOwn_setOwn TimeClip_def ToIntegerOrInfinity_wholePart toISOString_def
        split: if_splits)
next
  assume "map_of kvs ''t'' = None \<or> getOwn kvs ''t'' = JNum 0"
  then have "\<not> truthy (getOwn kvs ''t'')" by (auto simp add: getOwn_def)
  with assms show "getField r ''timestamp_iso'' = getOwn kvs ''timestamp_iso''"
    by (auto simp add: getOwn_setOwn)
qed

text \<open>A time outside the range of time values makes the item, and with it the call, throw.\<close>

lemma stampEntry_out_of_range:
  "getOwn kvs ''t'' = JNum q \<Longrightarrow> \<bar>q\<bar> > 8640000000000000 \<Longrightarrow>
     stampEntry symbol (JObj kvs) = Inl RangeError"
  "getOwn kvs ''t'' = JInf positive \<Longrightarrow> stampEntry symbol (JObj kvs) = Inl RangeError"
proof -
  assume t: "getOwn kvs ''t'' = JNum q" and r: "\<bar>q\<bar> > 8640000000000000"
  from r have "q \<noteq> 0" by auto
  with t r show "stampEntry symbol (JObj kvs) = Inl RangeError"
    by (simp add: getOwn_setOwn TimeClip_def toISOString_def)
next
  assume "getOwn kvs ''t'' = JInf positive"
  then show "stampEntry symbol (JObj kvs) = Inl RangeError"
    by (simp add: getOwn_setOwn toISOString_def)
qed

text \<open>
  Claim C2, as the code has it. Whenever \<open>parseLiquidationData\<close> returns, its records
  are the history items in order. A record made from a plain object whose \<^verbatim>\<open>t\<close> is
  a number other than 0 has as \<^verbatim>\<open>timestamp_iso\<close> the ISO-8601 UTC string of the whole
  part of \<^verbatim>\<open>t\<close>, whose millisecond epoch is that whole part: \<^verbatim>\<open>t\<close> itself when \<^verbatim>\<open>t\<close>
  is a whole number. Such a \<^verbatim>\<open>t\<close> is at most 8.64e15 in magnitude and not infinite,
  for otherwise the call throws. A record made from a plain object without \<^verbatim>\<open>t\<close>, or
  with the number 0 as \<^verbatim>\<open>t\<close>, has the \<^verbatim>\<open>timestamp_iso\<close> the item came with, none if
  it had none.
\<close>

theorem timestamp_iso_law:
  assumes "parseLiquidationData (JArr xs) = Inr recs"
    and "i < length recs"
    and "flatItems xs ! i = (symbol, JObj kvs)"
  shows "length recs = length (flatItems xs)
    \<and> (\<forall>q. getOwn kvs ''t'' = JNum q \<and> q \<noteq> 0 \<longrightarrow>
          \<bar>q\<bar> \<le> 8640000000000000
          \<and> getField (recs ! i) ''timestamp_iso'' = JStr (isoString (wholePart q))
          \<and> isoEpoch (isoString (wholePart q)) = Some (wholePart q))
    \<and> (\<forall>n. getOwn kvs ''t'' = JNum (of_int n) \<and> n \<noteq> 0 \<longrightarrow>
          getField (recs ! i) ''timestamp_iso'' = JStr (isoString n)
          \<and> isoEpoch (isoString n) = Some n)
    \<and> (\<forall>positive. getOwn kvs ''t'' \<noteq> JInf positive)
    \<and> (map_of kvs ''t'' = None \<or> getOwn kvs ''t'' = JNum 0 \<longrightarrow>
          getField (recs ! i) ''timestamp_iso'' = getOwn kvs ''timestamp_iso'')"
proof -
  from assms(1) have "flattenAll xs [] = Inr recs" by (simp add: parseLiquidationData_def)
  from flattenAll_map [OF this]
  have m: "mapResult (\<lambda>(s, e). stampEntry s e) (flatItems xs) = Inr recs" by simp
  from mapResult_Inr [OF m] have len: "length recs = length (flatItems xs)"
    and each: "\<forall>j < length (flatItems xs). (\<lambda>(s, e). stampEntry s e) (flatItems xs ! j) = Inr (recs ! j)"
    by blast+
  from each assms(2,3) len have st: "stampEntry symbol (JObj kvs) = Inr (recs ! i)" by auto
  have frac: "\<bar>q\<bar> \<le> 8640000000000000
      \<and> getField (recs ! i) ''timestamp_iso'' = JStr (isoString (wholePart q))
      \<and> isoEpoch (isoString (wholePart q)) = Some (wholePart q)"
    if "getOwn kvs ''t'' = JNum q" "q \<noteq> 0" for q
  proof -
    from stampEntry_object(1) [OF st that]
    have s: "getField (recs ! i) ''timestamp_iso'' = JStr (isoString (wholePart q))"
      and r: "\<bar>q\<bar> \<le> 8640000000000000"
      by simp_all
    from iso_roundtrip [OF wholePart_range [OF r]] s r show ?thesis by (simp add: isoEpoch_def)
  qed
  have whole: "getField (recs ! i) ''timestamp_iso'' = JStr (isoString n)
      \<and> isoEpoch (isoString n) = Some n"
    if "getOwn kvs ''t'' = JNum (of_int n)" "n \<noteq> 0" for n
    using frac [of "of_int n"] that by (simp add: wholePart_of_int)
  have finite: "getOwn kvs ''t'' \<noteq> JInf positive" for positive
    using stampEntry_out_of_range(2) [of kvs positive symbol] st by auto
  have "getField (recs ! i) ''timestamp_iso'' = getOwn kvs ''timestamp_iso''"
    if "map_of kvs ''t'' = None \<or> getOwn kvs ''t'' = JNum 0"
    using stampEntry_object(2) [OF st that] .
  with frac whole finite len show ?thesis by blast
qed

lemma isoString_example: "isoString 1700000000000 = ''2023-11-14T22:13:20.000Z''"
proof -
  have y: "YearFromTime 1700000000000 = 2023"
    by (simp add: YearFromTime_def Day_def msPerDay_def yearSearch.simps DayFromYear_def)
  have w: "DayWithinYear 1700000000000 = 317"
    by (simp add: DayWithinYear_def y Day_def msPerDay_def DayFromYear_def)
  have l: "InLeapYear 1700000000000 = 0"
    by (simp add: InLeapYear_def y DaysInYear_def)
  have m: "MonthFromTime 1700000000000 = 10"
    by (simp add: MonthFromTime_def monthOfDay_def w l)
  have d: "DateFromTime 1700000000000 = 14"
    by (simp add: DateFromTime_def w l m monthStart_def)
  have t: "HourFromTime 1700000000000 = 22" "MinFromTime 1700000000000 = 13"
    "SecFromTime 1700000000000 = 20" "msFromTime 1700000000000 = 0"
    by (simp_all add: HourFromTime_def MinFromTime_def SecFromTime_def msFromTime_def
        msPerHour_def msPerMinute_def msPerSecond_def)
  show ?thesis
    by (simp add: isoString_def isoYear_def y m d t fixedDigits_2 fixedDigits_3 fixedDigits_4
        digitChar_def)
qed

lemma wholePart_example: "wholePart (3400000000001 / 2) = 1700000000000"
  using floor_divide_of_int_eq [of 3400000000001 2, where 'a = rat] by (simp add: wholePart_def)

theorem timestamp_iso_law_witness:
  "getField (JObj [(''t'', JNum 1700000000000), (''l'', JNum 100), (''symbol'', JStr ''BTCUSD''),
                   (''timestamp_iso'', JStr ''2023-11-14T22:13:20.000Z'')]) ''timestamp_iso''
     = JStr ''2023-11-14T22:13:20.000Z''
   \<and> isoEpoch ''2023-11-14T22:13:20.000Z'' = Some 1700000000000
   \<and> getField (JObj [(''l'', JNum 7), (''symbol'', JStr ''BTCUSD'')]) ''timestamp_iso''
     = JUndefined"
proof -
  let ?xs = "[JObj [(''symbol'', JStr ''BTCUSD''),
                    (''history'', JArr [JObj [(''t'', JNum 1700000000000), (''l'', JNum 100)],
                                        JObj [(''l'', JNum 7)]])]]"
  let ?recs = "[JObj [(''t'', JNum 1700000000000), (''l'', JNum 100), (''symbol'', JStr ''BTCUSD''),
                      (''timestamp_iso'', JStr ''2023-11-14T22:13:20.000Z'')],
                JObj [(''l'', JNum 7), (''symbol'', JStr ''BTCUSD'')]]"
  have w: "wholePart 1700000000000 = 1700000000000"
    using wholePart_of_int [of 1700000000000] by simp
  have run: "parseLiquidationData (JArr ?xs) = Inr ?recs"
    by (simp add: parseLiquidationData_def getOwn_def TimeClip_def ToIntegerOrInfinity_wholePart
        w toISOString_def isoString_example)
  have f0: "flatItems ?xs ! 0
      = (JStr ''BTCUSD'', JObj [(''t'', JNum 1700000000000), (''l'', JNum 100)])"
    and f1: "flatItems ?xs ! 1 = (JStr ''BTCUSD'', JObj [(''l'', JNum 7)])"
    by (simp_all add: flatItems_def validEntry_def getOwn_def)
  from timestamp_iso_law [OF run _ f0] timestamp_iso_law [OF run _ f1]
  show ?thesis by (simp add: getOwn_def w isoString_example)
qed

text \<open>The scenario of the specification, from the response to the CSV text.\<close>

lemma end_to_end_example:
  "parseLiquidationData
     (JArr [JObj [(''symbol'', JStr ''BTCUSD''),
                  (''history'', JArr [JObj [(''t'', JNum 1700000000000), (''l'', JNum 100),
                                            (''s'', JNum 50)]])]])
     = Inr [JObj [(''t'', JNum 1700000000000), (''l'', JNum 100), (''s'', JNum 50),
                  (''symbol'', JStr ''BTCUSD''),
                  (''timestamp_iso'', JStr ''2023-11-14T22:13:20.000Z'')]]"
  "convertToCSV
     (JArr [JObj [(''t'', JNum 1700000000000), (''l'', JNum 100), (''s'', JNum 50),
                  (''symbol'', JStr ''BTCUSD''),
                  (''timestamp_iso'', JStr ''2023-11-14T22:13:20.000Z'')]])
     = Inr (''symbol,timestamp_iso,t,l,s'' @ [NL]
            @ ''BTCUSD,2023-11-14T22:13:20.000Z,1700000000000,100,50'')"
  by (simp_all add: parseLiquidationData_def getOwn_def TimeClip_def ToIntegerOrInfinity_def
      toISOString_def isoString_example csv_eval)

lemma isoEpoch_example: "isoEpoch ''2023-11-14T22:13:20.000Z'' = Some 1700000000000"
  using iso_roundtrip [of 1700000000000] by (simp add: isoEpoch_def isoString_example)

text \<open>
  Claim C2 as stated fails twice. An item whose \<^verbatim>\<open>t\<close> is the number 0 carries a
  numeric epoch field, and the test \<^verbatim>\<open>if (entry.t)\<close> leaves its record without
  \<^verbatim>\<open>timestamp_iso\<close>. An item whose \<^verbatim>\<open>t\<close> is 1700000000000.5 gets the string of
  1700000000000, whose millisecond epoch is not \<^verbatim>\<open>t\<close>.
\<close>

theorem timestamp_iso_counterexample:
  "parseLiquidationData
     (JArr [JObj [(''symbol'', JStr ''BTCUSD''), (''history'', JArr [JObj [(''t'', JNum 0)]])]])
     = Inr [JObj [(''t'', JNum 0), (''symbol'', JStr ''BTCUSD'')]]
   \<and> getField (JObj [(''t'', JNum 0), (''symbol'', JStr ''BTCUSD'')]) ''timestamp_iso''
     = JUndefined
   \<and> parseLiquidationData
     (JArr [JObj [(''symbol'', JStr ''BTCUSD''),
                  (''history'', JArr [JObj [(''t'', JNum (3400000000001 / 2))]])]])
     = Inr [JObj [(''t'', JNum (3400000000001 / 2)), (''symbol'', JStr ''BTCUSD''),
                  (''timestamp_iso'', JStr ''2023-11-14T22:13:20.000Z'')]]
   \<and> isoEpoch ''2023-11-14T22:13:20.000Z'' = Some 1700000000000
   \<and> rat_of_int 1700000000000 \<noteq> 3400000000001 / 2"
  by (simp add: parseLiquidationData_def getOwn_def TimeClip_def ToIntegerOrInfinity_wholePart
      wholePart_example toISOString_def isoString_example isoEpoch_example)


end
